theory Spec2Isabelle
  imports Main
begin

section \<open>Values, tables and the store\<close>

text \<open>
  The helpers of \<^verbatim>\<open>comparative_benchmark.py\<close> talk to PostgreSQL through psycopg2 and
  see a row as a tuple of Python values. A value is NULL (\<^verbatim>\<open>None\<close>), an integer, a
  string, a boolean or a \<^verbatim>\<open>datetime\<close> (counted in microseconds). A float with an
  integer value, such as the rate \<^verbatim>\<open>100.0\<close> that a Django \<^verbatim>\<open>FloatField\<close> holds, is
  written as that integer: Python's \<^verbatim>\<open>==\<close> does not tell the two apart. A string has
  no NUL character (psycopg2 refuses such a string before any statement is sent).
\<close>

datatype val = VNull | VInt int | VStr string | VBool bool | VTime int

type_synonym row = "val list"

text \<open>
  A table has its column names in ordinal position, its rows in storage order, and its
  key constraints: every key is a list of columns whose values must be non-NULL and
  unique together (the \<^verbatim>\<open>PRIMARY KEY\<close> and \<^verbatim>\<open>UNIQUE\<close> clauses of \<^verbatim>\<open>setup_database\<close>).
\<close>

record table =
  columns :: "string list"
  rows :: "row list"
  keys :: "string list list"

type_synonym db = "string \<Rightarrow> table option"

text \<open>
  Errors. \<open>Exception m\<close> is Python's base class \<^verbatim>\<open>Exception\<close> raised with message \<open>m\<close>;
  \<open>TypeError\<close>, \<open>ValueError\<close> and \<open>IndexError\<close> are the Python built-ins;
  \<open>ProgrammingError\<close> (undefined table or column, malformed statement),
  \<open>IntegrityError\<close> (a key constraint is violated) and \<open>InFailedSqlTransaction\<close> come
  from the database driver; \<open>DoesNotExist\<close> and \<open>MultipleObjectsReturned\<close> from
  Django's \<^verbatim>\<open>get\<close>.
\<close>

datatype error =
    Exception string
  | TypeError
  | ValueError
  | IndexError
  | ProgrammingError
  | IntegrityError
  | InFailedSqlTransaction
  | DoesNotExist
  | MultipleObjectsReturned

text \<open>
  A psycopg2 connection (autocommit off): the committed store, and the transaction the
  connection has open. The first statement opens a transaction; a statement that fails
  in the database aborts it, and every later statement is refused until the transaction
  ends.
\<close>

text \<open>The Python class of an error, which is what an \<^verbatim>\<open>except\<close> clause can tell apart.\<close>

fun error_class :: "error \<Rightarrow> string" where
  "error_class (Exception m) = ''Exception''"
| "error_class TypeError = ''TypeError''"
| "error_class ValueError = ''ValueError''"
| "error_class IndexError = ''IndexError''"
| "error_class ProgrammingError = ''ProgrammingError''"
| "error_class IntegrityError = ''IntegrityError''"
| "error_class InFailedSqlTransaction = ''InFailedSqlTransaction''"
| "error_class DoesNotExist = ''DoesNotExist''"
| "error_class MultipleObjectsReturned = ''MultipleObjectsReturned''"

datatype txn = Idle | Active db | Failed

record conn =
  committed :: db
  txn :: txn

definition the_view :: "conn \<Rightarrow> db option" where
  "the_view c = (case txn c of Idle \<Rightarrow> Some (committed c) | Active d \<Rightarrow> Some d | Failed \<Rightarrow> None)"

type_synonym 'a action = "conn \<Rightarrow> (error + 'a) \<times> conn"

definition then_do :: "'a action \<Rightarrow> ('a \<Rightarrow> 'b action) \<Rightarrow> 'b action" where
  "then_do m f c = (case m c of (Inl e, c') \<Rightarrow> (Inl e, c') | (Inr x, c') \<Rightarrow> f x c')"

definition returns :: "'a \<Rightarrow> 'a action" where
  "returns x c = (Inr x, c)"

definition raise :: "error \<Rightarrow> 'a action" where
  "raise e c = (Inl e, c)"

text \<open>A Python computation that does not touch the connection.\<close>

definition python :: "error + 'a \<Rightarrow> 'a action" where
  "python r c = (r, c)"

text \<open>\<^verbatim>\<open>cursor.execute\<close> of a query and of a statement that writes.\<close>

definition execute_query :: "(db \<Rightarrow> error + 'a) \<Rightarrow> 'a action" where
  "execute_query q c =
     (case the_view c of
        None \<Rightarrow> (Inl InFailedSqlTransaction, c)
      | Some d \<Rightarrow>
          (case q d of
             Inl e \<Rightarrow> (Inl e, c\<lparr>txn := Failed\<rparr>)
           | Inr x \<Rightarrow> (Inr x, c\<lparr>txn := Active d\<rparr>)))"

definition execute_update :: "(db \<Rightarrow> error + db) \<Rightarrow> unit action" where
  "execute_update u c =
     (case the_view c of
        None \<Rightarrow> (Inl InFailedSqlTransaction, c)
      | Some d \<Rightarrow>
          (case u d of
             Inl e \<Rightarrow> (Inl e, c\<lparr>txn := Failed\<rparr>)
           | Inr d' \<Rightarrow> (Inr (), c\<lparr>txn := Active d'\<rparr>)))"

text \<open>
  \<^verbatim>\<open>conn.commit()\<close>, and \<^verbatim>\<open>COMMIT\<close> sent as a statement: an open transaction becomes the
  committed store, an aborted one is rolled back.
\<close>

definition commit :: "unit action" where
  "commit c =
     (case txn c of
        Active d \<Rightarrow> (Inr (), c\<lparr>committed := d, txn := Idle\<rparr>)
      | _ \<Rightarrow> (Inr (), c\<lparr>txn := Idle\<rparr>))"

section \<open>Python on lists and values\<close>

text \<open>\<^verbatim>\<open>columns.index(x)\<close>: the first position of \<open>x\<close>, or ValueError.\<close>

fun index_of :: "string list \<Rightarrow> string \<Rightarrow> nat option" where
  "index_of [] x = None"
| "index_of (y # ys) x = (if y = x then Some 0 else map_option Suc (index_of ys x))"

definition py_index :: "string list \<Rightarrow> string \<Rightarrow> error + nat" where
  "py_index xs x = (case index_of xs x of None \<Rightarrow> Inl ValueError | Some i \<Rightarrow> Inr i)"

text \<open>\<^verbatim>\<open>t[i]\<close> and \<^verbatim>\<open>t[i] = v\<close> for a non-negative index: IndexError out of range.\<close>

definition py_getitem :: "val list \<Rightarrow> nat \<Rightarrow> error + val" where
  "py_getitem xs i = (if i < length xs then Inr (xs ! i) else Inl IndexError)"

definition py_setitem :: "val list \<Rightarrow> nat \<Rightarrow> val \<Rightarrow> error + val list" where
  "py_setitem xs i v = (if i < length xs then Inr (xs[i := v]) else Inl IndexError)"

text \<open>\<^verbatim>\<open>v + 1\<close>: defined on integers (and booleans, which are integers in Python).\<close>

fun py_add_one :: "val \<Rightarrow> error + val" where
  "py_add_one (VInt v) = Inr (VInt (v + 1))"
| "py_add_one (VBool b) = Inr (VInt ((if b then 1 else 0) + 1))"
| "py_add_one _ = Inl TypeError"

text \<open>\<^verbatim>\<open>updates.get(k, default)\<close> on a dict given as its list of items.\<close>

definition dict_get :: "(string \<times> val) list \<Rightarrow> string \<Rightarrow> val \<Rightarrow> val" where
  "dict_get updates k dflt = (case map_of updates k of Some v \<Rightarrow> v | None \<Rightarrow> dflt)"

definition and_then :: "error + 'a \<Rightarrow> ('a \<Rightarrow> error + 'b) \<Rightarrow> error + 'b" where
  "and_then r f = (case r of Inl e \<Rightarrow> Inl e | Inr x \<Rightarrow> f x)"

section \<open>The SQL statements the helpers send\<close>

text \<open>The value of column \<open>c\<close> in a row; a cell the row does not have reads as NULL.\<close>

definition cell :: "string list \<Rightarrow> string \<Rightarrow> row \<Rightarrow> val" where
  "cell cols c r =
     (case index_of cols c of
        Some i \<Rightarrow> if i < length r then r ! i else VNull
      | None \<Rightarrow> VNull)"

text \<open>
  \<^verbatim>\<open>ORDER BY col DESC LIMIT 1\<close>: \<open>desc_before a b\<close> says that \<open>a\<close> sorts strictly before
  \<open>b\<close> in descending order (PostgreSQL puts NULLs first there). Among rows that tie the
  database is free to choose; the model takes the one stored first.
\<close>

fun desc_before :: "val \<Rightarrow> val \<Rightarrow> bool" where
  "desc_before VNull VNull = False"
| "desc_before VNull _ = True"
| "desc_before (VInt a) (VInt b) = (b < a)"
| "desc_before (VTime a) (VTime b) = (b < a)"
| "desc_before _ _ = False"

fun order_desc_first :: "(row \<Rightarrow> val) \<Rightarrow> row list \<Rightarrow> row option" where
  "order_desc_first key [] = None"
| "order_desc_first key (r # rs) =
     (case order_desc_first key rs of
        None \<Rightarrow> Some r
      | Some b \<Rightarrow> if desc_before (key b) (key r) then Some b else Some r)"

text \<open>\<^verbatim>\<open>SELECT * FROM table WHERE id = %s ORDER BY ordcol DESC LIMIT 1\<close>, then \<^verbatim>\<open>fetchone()\<close>.\<close>

definition select_latest :: "string \<Rightarrow> string \<Rightarrow> string \<Rightarrow> db \<Rightarrow> error + row option" where
  "select_latest tname ordcol id_value d =
     (case d tname of
        None \<Rightarrow> Inl ProgrammingError
      | Some t \<Rightarrow>
          if ''id'' \<in> set (columns t) \<and> ordcol \<in> set (columns t)
          then Inr (order_desc_first (cell (columns t) ordcol)
                      (filter (\<lambda>r. cell (columns t) ''id'' r = VStr id_value) (rows t)))
          else Inl ProgrammingError)"

text \<open>
  \<^verbatim>\<open>SELECT column_name FROM information_schema.columns WHERE table_name = %s ORDER BY
  ordinal_position\<close>: no row for a table that does not exist.
\<close>

definition select_column_names :: "string \<Rightarrow> db \<Rightarrow> error + string list" where
  "select_column_names tname d = (case d tname of None \<Rightarrow> Inr [] | Some t \<Rightarrow> Inr (columns t))"

text \<open>A new row violates a key when a key column is NULL or a stored row has the same key.\<close>

definition violates :: "table \<Rightarrow> row \<Rightarrow> bool" where
  "violates t r =
     (\<exists>k \<in> set (keys t).
        (\<exists>c \<in> set k. cell (columns t) c r = VNull) \<or>
        (\<exists>r' \<in> set (rows t). \<forall>c \<in> set k. cell (columns t) c r' = cell (columns t) c r))"

text \<open>
  \<^verbatim>\<open>INSERT INTO table (cols) VALUES (vals)\<close>: the statement names each column once, gives
  one value per column, and a column it does not name is NULL. The store of this
  development checks a new row against the keys. PostgreSQL checks more, and first:
  every value has to fit the type its column was declared with, or the statement fails
  with a DataError; \<open>fits_declared\<close> below says when a row passes that check and is
  stored as it is, and a theorem that promises the row of an INSERT takes it as a
  premise.
\<close>

definition insert_into :: "string \<Rightarrow> string list \<Rightarrow> val list \<Rightarrow> db \<Rightarrow> error + db" where
  "insert_into tname cols vals d =
     (case d tname of
        None \<Rightarrow> Inl ProgrammingError
      | Some t \<Rightarrow>
          if \<not> (set cols \<subseteq> set (columns t) \<and> distinct cols \<and> length vals = length cols)
          then Inl ProgrammingError
          else
            let r = map (\<lambda>c. case map_of (zip cols vals) c of Some v \<Rightarrow> v | None \<Rightarrow> VNull)
                      (columns t)
            in if violates t r then Inl IntegrityError
               else Inr (d(tname \<mapsto> t\<lparr>rows := rows t @ [r]\<rparr>)))"

text \<open>
  The column types of \<^verbatim>\<open>setup_database\<close>. The three \<^verbatim>\<open>CREATE TABLE\<close> statements give a
  column of the same name the same type.
\<close>

datatype sqltype = Integer | Varchar nat | Boolean | Timestamp

definition declared_types :: "(string \<times> sqltype) list" where
  "declared_types =
     [(''id'', Varchar 64), (''version'', Integer), (''created_at'', Timestamp),
      (''uid'', Varchar 64), (''is_current'', Boolean), (''status'', Varchar 32),
      (''rate'', Integer), (''title'', Varchar 255), (''company_id'', Varchar 64),
      (''contractor_id'', Varchar 64)]"

text \<open>
  A value that PostgreSQL stores unchanged in a column of the type: NULL, a 32-bit
  integer for \<^verbatim>\<open>INTEGER\<close>, a string of at most \<open>n\<close> characters for \<^verbatim>\<open>VARCHAR(n)\<close>, a
  boolean for \<^verbatim>\<open>BOOLEAN\<close>, a \<^verbatim>\<open>datetime\<close> for \<^verbatim>\<open>TIMESTAMP\<close>. Of a value of another
  kind, which PostgreSQL converts or refuses, nothing is said.
\<close>

fun fits :: "sqltype \<Rightarrow> val \<Rightarrow> bool" where
  "fits ty VNull \<longleftrightarrow> True"
| "fits Integer (VInt v) \<longleftrightarrow> - 2147483648 \<le> v \<and> v \<le> 2147483647"
| "fits (Varchar n) (VStr s) \<longleftrightarrow> length s \<le> n \<and> CHR 0x00 \<notin> set s"
| "fits Boolean (VBool b) \<longleftrightarrow> True"
| "fits Timestamp (VTime t) \<longleftrightarrow> True"
| "fits _ _ \<longleftrightarrow> False"

text \<open>Every column of the row is one that \<^verbatim>\<open>setup_database\<close> declares, and its value fits.\<close>

definition fits_declared :: "string list \<Rightarrow> row \<Rightarrow> bool" where
  "fits_declared cols r \<longleftrightarrow>
     list_all (\<lambda>c. case map_of declared_types c of
                       None \<Rightarrow> False
                     | Some ty \<Rightarrow> fits ty (cell cols c r)) cols"

section \<open>SCDHelper: the counter strategy\<close>

text \<open>
  The loop \<^verbatim>\<open>for col, value in updates.items(): if col in columns: ...\<close> of
  \<^verbatim>\<open>SCDHelper.create_new_version\<close>.
\<close>

fun apply_updates :: "string list \<Rightarrow> (string \<times> val) list \<Rightarrow> val list \<Rightarrow> error + val list" where
  "apply_updates cols [] new_data = Inr new_data"
| "apply_updates cols ((col, value) # rest) new_data =
     (if col \<in> set cols
      then and_then (py_index cols col) (\<lambda>col_idx.
           and_then (py_setitem new_data col_idx value) (\<lambda>new_data'.
           apply_updates cols rest new_data'))
      else apply_updates cols rest new_data)"

text \<open>
  Lines 47 to 59: copy the latest row, bump the version, apply the updates, set the new
  uid (\<open>new_uid\<close> stands for \<^verbatim>\<open>str(uuid.uuid4())\<close>).
\<close>

definition prepare_new_data ::
  "row \<Rightarrow> string list \<Rightarrow> (string \<times> val) list \<Rightarrow> string \<Rightarrow> error + val list" where
  "prepare_new_data latest cols updates new_uid =
     and_then (py_index cols ''version'') (\<lambda>version_idx.
     and_then (py_getitem latest version_idx) (\<lambda>v.
     and_then (py_add_one v) (\<lambda>v'.
     and_then (py_setitem latest version_idx v') (\<lambda>new_data.
     and_then (apply_updates cols updates new_data) (\<lambda>new_data'.
     and_then (py_index cols ''uid'') (\<lambda>uid_idx.
     py_setitem new_data' uid_idx (VStr new_uid)))))))"

text \<open>
  \<^verbatim>\<open>SCDHelper.create_new_version(table, id_value, updates)\<close>. The function has no
  \<^verbatim>\<open>return\<close>: on success its value is Python's \<^verbatim>\<open>None\<close>, here \<open>None\<close>.
  \<^verbatim>\<open>not latest\<close> holds for \<^verbatim>\<open>None\<close> and for an empty tuple.
\<close>

definition SCDHelper_create_new_version ::
  "string \<Rightarrow> string \<Rightarrow> (string \<times> val) list \<Rightarrow> string \<Rightarrow> row option action" where
  "SCDHelper_create_new_version tname id_value updates new_uid =
     then_do (execute_query (select_latest tname ''version'' id_value)) (\<lambda>latest.
     if latest = None \<or> latest = Some []
     then raise (Exception (''No record found with id '' @ id_value))
     else
       then_do (execute_query (select_column_names tname)) (\<lambda>cols.
       then_do (python (prepare_new_data (the latest) cols updates new_uid)) (\<lambda>new_data.
       then_do (execute_update (insert_into tname cols new_data)) (\<lambda>_.
       then_do commit (\<lambda>_.
       returns None)))))"

section \<open>TimestampVersioningHelper: the timestamp strategy\<close>

text \<open>
  The column list of the INSERT statements; \<^verbatim>\<open>setup_database\<close> creates the two tables
  with these columns in this order, which the helpers rely on when they read
  \<^verbatim>\<open>latest[3]\<close> or \<^verbatim>\<open>original[4]\<close>.
\<close>

definition ts_columns :: "string list" where
  "ts_columns = [''id'', ''created_at'', ''uid'', ''status'', ''rate'', ''title'',
     ''company_id'', ''contractor_id'']"

definition flag_columns :: "string list" where
  "flag_columns = [''id'', ''version'', ''uid'', ''is_current'', ''status'', ''rate'', ''title'',
     ''company_id'', ''contractor_id'']"

text \<open>
  The tuple of values of the INSERT (lines 155 to 158); \<open>now\<close> stands for
  \<^verbatim>\<open>datetime.now()\<close>. Python evaluates \<^verbatim>\<open>latest[3]\<close> before it calls \<^verbatim>\<open>updates.get\<close>.
\<close>

definition ts_values ::
  "row \<Rightarrow> string \<Rightarrow> (string \<times> val) list \<Rightarrow> int \<Rightarrow> string \<Rightarrow> error + val list" where
  "ts_values latest id_value updates now new_uid =
     and_then (py_getitem latest 3) (\<lambda>l3.
     and_then (py_getitem latest 4) (\<lambda>l4.
     and_then (py_getitem latest 5) (\<lambda>l5.
     and_then (py_getitem latest 6) (\<lambda>l6.
     and_then (py_getitem latest 7) (\<lambda>l7.
     Inr [VStr id_value, VTime now, VStr new_uid,
          dict_get updates ''status'' l3, dict_get updates ''rate'' l4, l5, l6, l7])))))"

definition TimestampVersioningHelper_create_new_version ::
  "string \<Rightarrow> string \<Rightarrow> (string \<times> val) list \<Rightarrow> int \<Rightarrow> string \<Rightarrow> row option action" where
  "TimestampVersioningHelper_create_new_version tname id_value updates now new_uid =
     then_do (execute_query (select_latest (tname @ ''_ts'') ''created_at'' id_value)) (\<lambda>latest.
     if latest = None \<or> latest = Some []
     then raise (Exception (''No record found with id '' @ id_value))
     else
       then_do (python (ts_values (the latest) id_value updates now new_uid)) (\<lambda>vals.
       then_do (execute_update (insert_into (tname @ ''_ts'') ts_columns vals)) (\<lambda>_.
       then_do commit (\<lambda>_.
       returns None))))"

section \<open>FlagVersioningHelper: the flag strategy\<close>

definition set_cell :: "string list \<Rightarrow> string \<Rightarrow> val \<Rightarrow> row \<Rightarrow> row" where
  "set_cell cols c v r = (case index_of cols c of Some i \<Rightarrow> r[i := v] | None \<Rightarrow> r)"

text \<open>
  \<^verbatim>\<open>UPDATE table SET is_current = false WHERE id = %s AND is_current = true\<close>, with its
  effect on one row first. No key of \<^verbatim>\<open>setup_database\<close> mentions \<^verbatim>\<open>is_current\<close>, so the
  statement is not checked against the keys.
\<close>

definition clear_flag :: "string list \<Rightarrow> string \<Rightarrow> row \<Rightarrow> row" where
  "clear_flag cols id_value r =
     (if cell cols ''id'' r = VStr id_value \<and> cell cols ''is_current'' r = VBool True
      then set_cell cols ''is_current'' (VBool False) r
      else r)"

definition update_clear_current :: "string \<Rightarrow> string \<Rightarrow> db \<Rightarrow> error + db" where
  "update_clear_current tname id_value d =
     (case d tname of
        None \<Rightarrow> Inl ProgrammingError
      | Some t \<Rightarrow>
          if ''id'' \<in> set (columns t) \<and> ''is_current'' \<in> set (columns t)
          then Inr (d(tname \<mapsto> t\<lparr>rows := map (clear_flag (columns t) id_value) (rows t)\<rparr>))
          else Inl ProgrammingError)"

text \<open>The aggregate \<^verbatim>\<open>MAX\<close>: NULLs are skipped, and the maximum of nothing is NULL.\<close>

fun sql_max :: "val list \<Rightarrow> val" where
  "sql_max [] = VNull"
| "sql_max (v # vs) =
     (let m = sql_max vs
      in if v = VNull then m else if m = VNull then v else if desc_before m v then m else v)"

text \<open>\<^verbatim>\<open>SELECT COALESCE(MAX(version), 0) FROM table WHERE id = %s\<close>, then \<^verbatim>\<open>fetchone()[0]\<close>.\<close>

definition select_max_version :: "string \<Rightarrow> string \<Rightarrow> db \<Rightarrow> error + val" where
  "select_max_version tname id_value d =
     (case d tname of
        None \<Rightarrow> Inl ProgrammingError
      | Some t \<Rightarrow>
          if ''id'' \<in> set (columns t) \<and> ''version'' \<in> set (columns t)
          then let m = sql_max (map (cell (columns t) ''version'')
                         (filter (\<lambda>r. cell (columns t) ''id'' r = VStr id_value) (rows t)))
               in Inr (if m = VNull then VInt 0 else m)
          else Inl ProgrammingError)"

text \<open>\<^verbatim>\<open>SELECT * FROM table WHERE id = %s AND version = %s\<close>, then \<^verbatim>\<open>fetchone()\<close>.\<close>

definition select_version :: "string \<Rightarrow> string \<Rightarrow> val \<Rightarrow> db \<Rightarrow> error + row option" where
  "select_version tname id_value version d =
     (case d tname of
        None \<Rightarrow> Inl ProgrammingError
      | Some t \<Rightarrow>
          if ''id'' \<in> set (columns t) \<and> ''version'' \<in> set (columns t)
          then Inr (find (\<lambda>r. cell (columns t) ''id'' r = VStr id_value \<and> version \<noteq> VNull \<and>
                              cell (columns t) ''version'' r = version) (rows t))
          else Inl ProgrammingError)"

text \<open>\<^verbatim>\<open>original[i]\<close> where \<^verbatim>\<open>original\<close> is what \<^verbatim>\<open>fetchone()\<close> gave: TypeError on \<^verbatim>\<open>None\<close>.\<close>

definition py_subscript :: "row option \<Rightarrow> nat \<Rightarrow> error + val" where
  "py_subscript t i = (case t of None \<Rightarrow> Inl TypeError | Some r \<Rightarrow> py_getitem r i)"

text \<open>The tuple of values of the INSERT (lines 207 to 210).\<close>

definition flag_values ::
  "row option \<Rightarrow> string \<Rightarrow> val \<Rightarrow> (string \<times> val) list \<Rightarrow> string \<Rightarrow> error + val list" where
  "flag_values original id_value max_version updates new_uid =
     and_then (py_add_one max_version) (\<lambda>v'.
     and_then (py_subscript original 4) (\<lambda>o4.
     and_then (py_subscript original 5) (\<lambda>o5.
     and_then (py_subscript original 6) (\<lambda>o6.
     and_then (py_subscript original 7) (\<lambda>o7.
     and_then (py_subscript original 8) (\<lambda>o8.
     Inr [VStr id_value, v', VStr new_uid, VBool True,
          dict_get updates ''status'' o4, dict_get updates ''rate'' o5, o6, o7, o8]))))))"

text \<open>
  \<^verbatim>\<open>FlagVersioningHelper.create_new_version\<close>. \<^verbatim>\<open>BEGIN\<close> changes no table (psycopg2 has
  already opened the transaction when it is sent).
\<close>

definition FlagVersioningHelper_create_new_version ::
  "string \<Rightarrow> string \<Rightarrow> (string \<times> val) list \<Rightarrow> string \<Rightarrow> row option action" where
  "FlagVersioningHelper_create_new_version tname id_value updates new_uid =
     then_do (execute_update (\<lambda>d. Inr d)) (\<lambda>_.
     then_do (execute_update (update_clear_current (tname @ ''_flag'') id_value)) (\<lambda>_.
     then_do (execute_query (select_max_version (tname @ ''_flag'') id_value)) (\<lambda>max_version.
     then_do (execute_query (select_version (tname @ ''_flag'') id_value max_version)) (\<lambda>original.
     then_do (python (flag_values original id_value max_version updates new_uid)) (\<lambda>vals.
     then_do (execute_update (insert_into (tname @ ''_flag'') flag_columns vals)) (\<lambda>_.
     then_do commit (\<lambda>_.
     then_do commit (\<lambda>_.
     returns None))))))))"

section \<open>The bulk queries of the three helpers\<close>

text \<open>SQL's \<open>=\<close> in a join or filter condition: never true when a side is NULL.\<close>

definition sql_eq :: "val \<Rightarrow> val \<Rightarrow> bool" where
  "sql_eq a b \<longleftrightarrow> a \<noteq> VNull \<and> b \<noteq> VNull \<and> a = b"

text \<open>\<^verbatim>\<open>SELECT id, MAX(col) FROM table GROUP BY id\<close>: one pair per distinct id.\<close>

definition group_max :: "string list \<Rightarrow> string \<Rightarrow> row list \<Rightarrow> (val \<times> val) list" where
  "group_max cols col rs =
     map (\<lambda>i. (i, sql_max (map (cell cols col) (filter (\<lambda>r. cell cols ''id'' r = i) rs))))
       (remdups (map (cell cols ''id'') rs))"

text \<open>
  \<^verbatim>\<open>SELECT t1.* FROM table t1 INNER JOIN (SELECT id, MAX(col) ... GROUP BY id) t2 ON
  t1.id = t2.id AND t1.col = t2.max\<close>, then \<^verbatim>\<open>fetchall()\<close>; the rows come in storage order.
\<close>

definition select_join_max :: "string \<Rightarrow> string \<Rightarrow> db \<Rightarrow> error + row list" where
  "select_join_max tname col d =
     (case d tname of
        None \<Rightarrow> Inl ProgrammingError
      | Some t \<Rightarrow>
          if ''id'' \<in> set (columns t) \<and> col \<in> set (columns t)
          then Inr (concat (map (\<lambda>t1.
                      map (\<lambda>t2. t1)
                        (filter (\<lambda>t2. sql_eq (cell (columns t) ''id'' t1) (fst t2) \<and>
                                      sql_eq (cell (columns t) col t1) (snd t2))
                           (group_max (columns t) col (rows t))))
                    (rows t)))
          else Inl ProgrammingError)"


definition SCDHelper_get_latest_versions :: "string \<Rightarrow> row list action" where
  "SCDHelper_get_latest_versions tname = execute_query (select_join_max tname ''version'')"



section \<open>The Django helpers\<close>

text \<open>
  \<^verbatim>\<open>scd_helpers.py\<close> and \<^verbatim>\<open>repos.py\<close> work on a Django model. A model is its table; every
  model of \<^verbatim>\<open>models.py\<close> has the primary key \<^verbatim>\<open>uid\<close> and the fields \<^verbatim>\<open>id\<close> and
  \<^verbatim>\<open>version\<close>. Django runs each statement in autocommit mode, so the state is the table.
  A queryset is given by the rows it yields.

  \<^verbatim>\<open>latest_scd_queryset(model, base_queryset=None)\<close>: \<^verbatim>\<open>base_queryset or
  model.objects.all()\<close> takes all rows also when the given queryset yields no row (an
  empty queryset is false in Python); the filter keeps a row when its version equals
  the subquery \<^verbatim>\<open>SELECT MAX(version) FROM model WHERE id = <the row's id> GROUP BY id\<close>.
\<close>

definition latest_scd_queryset :: "table \<Rightarrow> row list option \<Rightarrow> row list" where
  "latest_scd_queryset model base_queryset =
     (let base = (case base_queryset of
                    None \<Rightarrow> rows model
                  | Some q \<Rightarrow> if q = [] then rows model else q);
          subq = (\<lambda>r. sql_max (map (cell (columns model) ''version'')
                    (filter (\<lambda>u. sql_eq (cell (columns model) ''id'' u)
                                        (cell (columns model) ''id'' r))
                       (rows model))))
      in filter (\<lambda>r. sql_eq (cell (columns model) ''version'' r) (subq r)) base)"

text \<open>\<^verbatim>\<open>qs.filter(status='active', company_id=company_id)\<close> on the latest rows of Job.\<close>

definition find_active_jobs_by_company :: "table \<Rightarrow> string \<Rightarrow> row list" where
  "find_active_jobs_by_company Job company_id =
     filter (\<lambda>r. sql_eq (cell (columns Job) ''status'' r) (VStr ''active'') \<and>
                 sql_eq (cell (columns Job) ''company_id'' r) (VStr company_id))
       (latest_scd_queryset Job None)"

definition find_active_jobs_by_contractor :: "table \<Rightarrow> string \<Rightarrow> row list" where
  "find_active_jobs_by_contractor Job contractor_id =
     filter (\<lambda>r. sql_eq (cell (columns Job) ''status'' r) (VStr ''active'') \<and>
                 sql_eq (cell (columns Job) ''contractor_id'' r) (VStr contractor_id))
       (latest_scd_queryset Job None)"

text \<open>
  \<^verbatim>\<open>model.objects.get(pk=v)\<close>: the one row with this uid (Django turns \<^verbatim>\<open>pk=None\<close> into
  \<^verbatim>\<open>uid IS NULL\<close>).
\<close>

definition objects_get :: "table \<Rightarrow> val \<Rightarrow> error + row" where
  "objects_get model v =
     (case filter (\<lambda>r. cell (columns model) ''uid'' r = v) (rows model) of
        [] \<Rightarrow> Inl DoesNotExist
      | [r] \<Rightarrow> Inr r
      | _ \<Rightarrow> Inl MultipleObjectsReturned)"

text \<open>
  \<^verbatim>\<open>obj.save()\<close>. When the primary key of the object is \<^verbatim>\<open>None\<close>, Django asks the key's
  field for a value (\<^verbatim>\<open>get_pk_value_on_save\<close>) and sets it on the object; for the
  \<^verbatim>\<open>CharField\<close> \<^verbatim>\<open>uid\<close> of \<^verbatim>\<open>models.py\<close>, which has no default, that value is the empty
  string. Django then runs \<^verbatim>\<open>UPDATE ... WHERE uid = <key>\<close>, which writes the object's
  fields over the stored row of that key, and runs an INSERT only when the UPDATE matched
  no row. The models of \<^verbatim>\<open>models.py\<close> have no key but \<^verbatim>\<open>uid\<close>, so the UPDATE is not
  checked against the keys. As for the INSERT above, the store checks a new row against
  the keys; that every column of \<^verbatim>\<open>models.py\<close> is \<^verbatim>\<open>NOT NULL\<close> and has a type is not
  part of it. The result is the object as \<^verbatim>\<open>save\<close> leaves it, and the table.
\<close>

definition get_pk_value_on_save :: val where
  "get_pk_value_on_save = VStr []"

definition save :: "table \<Rightarrow> row \<Rightarrow> error + row \<times> table" where
  "save model obj =
     (let obj = (if cell (columns model) ''uid'' obj = VNull
                 then set_cell (columns model) ''uid'' get_pk_value_on_save obj
                 else obj);
          pk = cell (columns model) ''uid'' obj
      in if \<exists>r \<in> set (rows model). sql_eq (cell (columns model) ''uid'' r) pk
         then Inr (obj, model\<lparr>rows := map (\<lambda>r. if sql_eq (cell (columns model) ''uid'' r) pk
                                                then obj else r) (rows model)\<rparr>)
         else if violates model obj then Inl IntegrityError
         else Inr (obj, model\<lparr>rows := rows model @ [obj]\<rparr>))"

text \<open>
  \<^verbatim>\<open>create_new_scd_version(model, id, update_fn)\<close>. \<open>update_fn\<close> is the caller's function;
  it changes the object it is given, or raises.
\<close>

definition create_new_scd_version ::
  "table \<Rightarrow> string \<Rightarrow> (row \<Rightarrow> error + row) \<Rightarrow> (error + row) \<times> table" where
  "create_new_scd_version model id_value update_fn =
     (case order_desc_first (cell (columns model) ''version'')
             (filter (\<lambda>r. cell (columns model) ''id'' r = VStr id_value) (rows model)) of
        None \<Rightarrow> (Inl (Exception ''Not found''), model)
      | Some latest \<Rightarrow>
          (case and_then (objects_get model (cell (columns model) ''uid'' latest)) (\<lambda>new_version.
                and_then (Inr (set_cell (columns model) ''uid'' VNull new_version)) (\<lambda>new_version.
                and_then (py_add_one (cell (columns model) ''version'' new_version)) (\<lambda>v'.
                and_then (Inr (set_cell (columns model) ''version'' v' new_version)) (\<lambda>new_version.
                and_then (update_fn new_version) (\<lambda>new_version.
                save model new_version))))) of
             Inl e \<Rightarrow> (Inl e, model)
           | Inr (new_version, model') \<Rightarrow> (Inr new_version, model')))"

text \<open>The fields of the model \<^verbatim>\<open>Job\<close> of \<^verbatim>\<open>models.py\<close>, in their order.\<close>

definition job_columns :: "string list" where
  "job_columns = [''uid'', ''id'', ''version'', ''status'', ''rate'', ''title'',
     ''company_id'', ''contractor_id'']"

text \<open>
  A table of the model \<^verbatim>\<open>Job\<close>: the first two jobs that \<^verbatim>\<open>seed_data\<close> of
  \<^verbatim>\<open>benchmark_scd.py\<close> creates, and a second version of \<^verbatim>\<open>job0\<close>, which is closed.
\<close>

definition seeded_Job :: table where
  "seeded_Job = \<lparr>columns = job_columns,
     rows = [[VStr ''job-uid-0'', VStr ''job0'', VInt 1, VStr ''active'', VInt 100,
              VStr ''Engineer'', VStr ''comp1'', VStr ''cont1''],
             [VStr ''job-uid-1'', VStr ''job1'', VInt 1, VStr ''active'', VInt 100,
              VStr ''Engineer'', VStr ''comp1'', VStr ''cont1''],
             [VStr ''job-uid-0-2'', VStr ''job0'', VInt 2, VStr ''closed'', VInt 100,
              VStr ''Engineer'', VStr ''comp1'', VStr ''cont1'']],
     keys = [[''uid'']]\<rparr>"

section \<open>The derived row, as the specification words it\<close>

text \<open>
  The specification derives the next row by copying the current row, overwriting the
  fields named in the update, assigning a new uid and incrementing the version. Column
  by column, with the precedence \<^verbatim>\<open>SCDHelper.create_new_version\<close> gives these rules: the
  uid is the new one; otherwise a column the update names takes the update's value (the
  last one, should a name occur twice); otherwise the version is the current version
  plus one; otherwise the value is the current row's.
\<close>

definition derived_row :: "string list \<Rightarrow> row \<Rightarrow> (string \<times> val) list \<Rightarrow> string \<Rightarrow> int \<Rightarrow> row" where
  "derived_row cols current updates new_uid v =
     map (\<lambda>col. if col = ''uid'' then VStr new_uid
                 else case map_of (rev updates) col of
                        Some x \<Rightarrow> x
                      | None \<Rightarrow> if col = ''version'' then VInt (v + 1)
                                else cell cols col current)
       cols"

section \<open>The seeded store\<close>

text \<open>
  The three tables with the columns and the keys that the \<^verbatim>\<open>CREATE TABLE\<close> statements
  of \<^verbatim>\<open>setup_database\<close> name (each statement names two primary keys, the uid and the
  pair of id and discriminator; both are keys here), filled as \<^verbatim>\<open>seed_data\<close> fills them,
  here with the two entities \<^verbatim>\<open>job0\<close> and \<^verbatim>\<open>job1\<close>.
\<close>

definition jobs_columns :: "string list" where
  "jobs_columns = [''id'', ''version'', ''uid'', ''status'', ''rate'', ''title'',
     ''company_id'', ''contractor_id'']"

definition seeded_jobs :: table where
  "seeded_jobs = \<lparr>columns = jobs_columns,
     rows = [[VStr ''job0'', VInt 1, VStr ''a0'', VStr ''active'', VInt 100, VStr ''Engineer'',
              VStr ''comp1'', VStr ''cont1''],
             [VStr ''job1'', VInt 1, VStr ''a1'', VStr ''active'', VInt 100, VStr ''Engineer'',
              VStr ''comp1'', VStr ''cont1'']],
     keys = [[''uid''], [''id'', ''version'']]\<rparr>"

definition seeded_jobs_ts :: table where
  "seeded_jobs_ts = \<lparr>columns = ts_columns,
     rows = [[VStr ''job0'', VTime 1000, VStr ''b0'', VStr ''active'', VInt 100, VStr ''Engineer'',
              VStr ''comp1'', VStr ''cont1''],
             [VStr ''job1'', VTime 1001, VStr ''b1'', VStr ''active'', VInt 100, VStr ''Engineer'',
              VStr ''comp1'', VStr ''cont1'']],
     keys = [[''uid''], [''id'', ''created_at'']]\<rparr>"

definition seeded_jobs_flag :: table where
  "seeded_jobs_flag = \<lparr>columns = flag_columns,
     rows = [[VStr ''job0'', VInt 1, VStr ''c0'', VBool True, VStr ''active'', VInt 100,
              VStr ''Engineer'', VStr ''comp1'', VStr ''cont1''],
             [VStr ''job1'', VInt 1, VStr ''c1'', VBool True, VStr ''active'', VInt 100,
              VStr ''Engineer'', VStr ''comp1'', VStr ''cont1'']],
     keys = [[''uid''], [''id'', ''version'']]\<rparr>"

definition seeded_db :: db where
  "seeded_db = [''jobs'' \<mapsto> seeded_jobs, ''jobs_ts'' \<mapsto> seeded_jobs_ts,
     ''jobs_flag'' \<mapsto> seeded_jobs_flag]"

definition seeded_conn :: conn where
  "seeded_conn = \<lparr>committed = seeded_db, txn = Idle\<rparr>"

section \<open>The current rows, as the specification words them\<close>

text \<open>
  The number a discriminator stands for: the version, or the microseconds of
  \<^verbatim>\<open>created_at\<close>.
\<close>

fun int_of :: "val \<Rightarrow> int" where
  "int_of (VInt v) = v"
| "int_of (VTime t) = t"
| "int_of _ = 0"

text \<open>
  The specification's set \<open>{current row of id}\<close> under the counter and the timestamp
  strategy: the rows whose discriminator \<open>col\<close> is the greatest among the rows of
  their id.
\<close>

definition current_rows :: "string \<Rightarrow> table \<Rightarrow> row list" where
  "current_rows col t =
     filter (\<lambda>r. \<forall>r' \<in> set (rows t). cell (columns t) ''id'' r' = cell (columns t) ''id'' r \<longrightarrow>
                   int_of (cell (columns t) col r') \<le> int_of (cell (columns t) col r))
       (rows t)"

section \<open>What a call may change in the rows it finds\<close>

text \<open>
  The business fields of a row are all its columns but the flag \<^verbatim>\<open>is_current\<close>. A table
  \<open>t'\<close> preserves the rows of \<open>t\<close> when it has the same columns and starts with the rows
  of \<open>t\<close>, each with its business fields unchanged.
\<close>

definition same_business_fields :: "string list \<Rightarrow> row \<Rightarrow> row \<Rightarrow> bool" where
  "same_business_fields cols r r' \<longleftrightarrow>
     length r' = length r \<and>
     (\<forall>col \<in> set cols. col \<noteq> ''is_current'' \<longrightarrow> cell cols col r' = cell cols col r)"

definition rows_preserved :: "table \<Rightarrow> table \<Rightarrow> bool" where
  "rows_preserved t t' \<longleftrightarrow>
     columns t' = columns t \<and> length (rows t) \<le> length (rows t') \<and>
     list_all2 (same_business_fields (columns t)) (rows t) (take (length (rows t)) (rows t'))"

text \<open>
  The state a call leaves, seen from the table \<open>t\<close> that the connection saw under the
  name \<open>tname\<close> before the call: whatever the connection sees afterwards preserves the
  rows of \<open>t\<close>, and the committed store is the old one or what the connection now sees.
\<close>

definition frame_kept :: "string \<Rightarrow> table \<Rightarrow> conn \<Rightarrow> conn \<Rightarrow> bool" where
  "frame_kept tname t c c' \<longleftrightarrow>
     (case the_view c' of
        None \<Rightarrow> True
      | Some d' \<Rightarrow> (case d' tname of None \<Rightarrow> False | Some t' \<Rightarrow> rows_preserved t t')) \<and>
     (committed c' = committed c \<or> the_view c' = Some (committed c'))"

section \<open>The flag table and runs of the flag helper\<close>

text \<open>
  A flag table as \<^verbatim>\<open>setup_database\<close> declares it: the nine columns in their order and,
  the version being part of the primary key, an integer version in every row.
\<close>

definition flag_wf :: "table \<Rightarrow> bool" where
  "flag_wf t \<longleftrightarrow>
     columns t = flag_columns \<and>
     (\<forall>r \<in> set (rows t). length r = 9 \<and> (\<exists>v. cell flag_columns ''version'' r = VInt v))"

text \<open>The number of rows of id \<open>i\<close> with \<^verbatim>\<open>is_current = true\<close>.\<close>

definition current_count :: "table \<Rightarrow> string \<Rightarrow> nat" where
  "current_count t i =
     length (filter (\<lambda>r. cell (columns t) ''id'' r = VStr i \<and>
                          cell (columns t) ''is_current'' r = VBool True) (rows t))"

text \<open>Every id that has a row has exactly one current row.\<close>

definition one_current :: "table \<Rightarrow> bool" where
  "one_current t \<longleftrightarrow>
     (\<forall>r \<in> set (rows t). \<forall>i. cell (columns t) ''id'' r = VStr i \<longrightarrow> current_count t i = 1)"

definition flag_good :: "table option \<Rightarrow> bool" where
  "flag_good x = (case x of None \<Rightarrow> False | Some t \<Rightarrow> flag_wf t \<and> one_current t)"

text \<open>
  The invariant of a connection: the flag table is well formed and has one current row
  per id in the committed store, and in the open transaction if there is one.
\<close>

definition flag_inv :: "string \<Rightarrow> conn \<Rightarrow> bool" where
  "flag_inv tname c \<longleftrightarrow>
     flag_good (committed c (tname @ ''_flag'')) \<and>
     (case txn c of Active d \<Rightarrow> flag_good (d (tname @ ''_flag'')) | _ \<Rightarrow> True)"

text \<open>
  A sequence of calls of \<^verbatim>\<open>FlagVersioningHelper.create_new_version\<close> on one connection,
  each with its id, its updates and the uid it generates; a call that raises leaves the
  connection as it is at that point and the next call goes on from there.
\<close>

fun flag_run :: "string \<Rightarrow> (string \<times> (string \<times> val) list \<times> string) list \<Rightarrow> conn \<Rightarrow> conn" where
  "flag_run tname [] c = c"
| "flag_run tname ((id_value, updates, new_uid) # calls) c =
     flag_run tname calls
       (snd (FlagVersioningHelper_create_new_version tname id_value updates new_uid c))"

section \<open>Discriminators in insertion order, and runs of all three helpers\<close>

text \<open>
  The discriminators (column \<open>col\<close>) of the rows of entity \<open>i\<close>, in the order in which
  the rows were inserted.
\<close>

definition discriminators :: "string \<Rightarrow> table \<Rightarrow> string \<Rightarrow> val list" where
  "discriminators col t i =
     map (cell (columns t) col) (filter (\<lambda>r. cell (columns t) ''id'' r = VStr i) (rows t))"

text \<open>
  Strictly increasing in the database's order (\<open>desc_before b a\<close>: \<open>b\<close> is greater than
  \<open>a\<close>); a strictly increasing sequence has no duplicates.
\<close>

definition increasing :: "val list \<Rightarrow> bool" where
  "increasing vs \<longleftrightarrow> sorted_wrt (\<lambda>a b. desc_before b a) vs"

text \<open>
  The tables as \<^verbatim>\<open>setup_database\<close> declares them: the counter table has distinct columns,
  among them id, version and uid, and an integer version in every row; the timestamp
  table has its eight columns and a timestamp in every row.
\<close>

definition counter_wf :: "table \<Rightarrow> bool" where
  "counter_wf t \<longleftrightarrow>
     distinct (columns t) \<and> ''id'' \<in> set (columns t) \<and> ''version'' \<in> set (columns t) \<and>
     ''uid'' \<in> set (columns t) \<and>
     (\<forall>r \<in> set (rows t). length r = length (columns t) \<and>
                          (\<exists>v. cell (columns t) ''version'' r = VInt v))"

definition ts_wf :: "table \<Rightarrow> bool" where
  "ts_wf t \<longleftrightarrow>
     columns t = ts_columns \<and>
     (\<forall>r \<in> set (rows t). length r = 8 \<and> (\<exists>v. cell ts_columns ''created_at'' r = VTime v))"

definition mono_good :: "string \<Rightarrow> (table \<Rightarrow> bool) \<Rightarrow> table option \<Rightarrow> bool" where
  "mono_good col well_formed x =
     (case x of None \<Rightarrow> False
      | Some t \<Rightarrow> well_formed t \<and> (\<forall>i. increasing (discriminators col t i)))"

definition mono_db :: "string \<Rightarrow> db \<Rightarrow> bool" where
  "mono_db tname d \<longleftrightarrow>
     mono_good ''version'' counter_wf (d tname) \<and>
     mono_good ''created_at'' ts_wf (d (tname @ ''_ts'')) \<and>
     mono_good ''version'' flag_wf (d (tname @ ''_flag''))"

definition mono_inv :: "string \<Rightarrow> conn \<Rightarrow> bool" where
  "mono_inv tname c \<longleftrightarrow>
     mono_db tname (committed c) \<and>
     (case txn c of Active d \<Rightarrow> mono_db tname d | _ \<Rightarrow> True)"

text \<open>A call of one of the three helpers, with the clock reading and the uid it draws.\<close>

datatype call =
    Counter_call string "(string \<times> val) list" string
  | Timestamp_call string "(string \<times> val) list" int string
  | Flag_call string "(string \<times> val) list" string

fun perform :: "string \<Rightarrow> call \<Rightarrow> row option action" where
  "perform tname (Counter_call id_value updates new_uid) =
     SCDHelper_create_new_version tname id_value updates new_uid"
| "perform tname (Timestamp_call id_value updates now new_uid) =
     TimestampVersioningHelper_create_new_version tname id_value updates now new_uid"
| "perform tname (Flag_call id_value updates new_uid) =
     FlagVersioningHelper_create_new_version tname id_value updates new_uid"

text \<open>
  A sequence of calls on one connection; a call that raises leaves the connection as it
  is at that point.
\<close>

fun run_calls :: "string \<Rightarrow> call list \<Rightarrow> conn \<Rightarrow> conn" where
  "run_calls tname [] c = c"
| "run_calls tname (call # calls) c = run_calls tname calls (snd (perform tname call c))"

text \<open>
  What the code does not enforce and monotonicity needs: a counter call whose updates
  name neither \<^verbatim>\<open>id\<close> nor \<^verbatim>\<open>version\<close>, and a timestamp call whose clock reading is later
  than every \<^verbatim>\<open>created_at\<close> the entity has when the call is made.
\<close>

fun call_ok :: "string \<Rightarrow> call \<Rightarrow> conn \<Rightarrow> bool" where
  "call_ok tname (Counter_call id_value updates new_uid) c \<longleftrightarrow>
     ''id'' \<notin> fst ` set updates \<and> ''version'' \<notin> fst ` set updates"
| "call_ok tname (Timestamp_call id_value updates now new_uid) c \<longleftrightarrow>
     (case the_view c of
        None \<Rightarrow> True
      | Some d \<Rightarrow>
          (case d (tname @ ''_ts'') of
             None \<Rightarrow> True
           | Some t \<Rightarrow> \<forall>r \<in> set (rows t). cell (columns t) ''id'' r = VStr id_value \<longrightarrow>
                         int_of (cell (columns t) ''created_at'' r) < now))"
| "call_ok tname (Flag_call id_value updates new_uid) c \<longleftrightarrow> True"

fun calls_ok :: "string \<Rightarrow> call list \<Rightarrow> conn \<Rightarrow> bool" where
  "calls_ok tname [] c \<longleftrightarrow> True"
| "calls_ok tname (call # calls) c \<longleftrightarrow>
     call_ok tname call c \<and> calls_ok tname calls (snd (perform tname call c))"

section \<open>Another writer between the read and the write\<close>

text \<open>
  \<^verbatim>\<open>SCDHelper.create_new_version\<close> in its two phases: the statements that read and derive
  the new row (lines 36 to 59), and the INSERT with the commit (lines 62 to 64).
\<close>

definition scd_read_derive ::
  "string \<Rightarrow> string \<Rightarrow> (string \<times> val) list \<Rightarrow> string \<Rightarrow> (string list \<times> val list) action" where
  "scd_read_derive tname id_value updates new_uid =
     then_do (execute_query (select_latest tname ''version'' id_value)) (\<lambda>latest.
     if latest = None \<or> latest = Some []
     then raise (Exception (''No record found with id '' @ id_value))
     else
       then_do (execute_query (select_column_names tname)) (\<lambda>cols.
       then_do (python (prepare_new_data (the latest) cols updates new_uid)) (\<lambda>new_data.
       returns (cols, new_data))))"

definition scd_write :: "string \<Rightarrow> string list \<times> val list \<Rightarrow> row option action" where
  "scd_write tname x =
     then_do (execute_update (insert_into tname (fst x) (snd x))) (\<lambda>_.
     then_do commit (\<lambda>_.
     returns None))"

text \<open>
  One execution of the function during which something else (\<open>other\<close>) acts on the
  store after the read and before the write. With nothing in between it is the function
  itself.
\<close>

definition interleaved ::
  "(conn \<Rightarrow> conn) \<Rightarrow> string \<Rightarrow> string \<Rightarrow> (string \<times> val) list \<Rightarrow> string \<Rightarrow> row option action" where
  "interleaved other tname id_value updates new_uid c =
     (case scd_read_derive tname id_value updates new_uid c of
        (Inl e, c1) \<Rightarrow> (Inl e, c1)
      | (Inr x, c1) \<Rightarrow> scd_write tname x (other c1))"

text \<open>
  The concurrent writer: another connection runs \<^verbatim>\<open>SCDHelper.create_new_version\<close> from
  start to end on the committed store. Under PostgreSQL's default isolation (read
  committed) the next statement of our transaction, which has only read so far, sees
  what the other connection committed.
\<close>

definition other_writer ::
  "string \<Rightarrow> string \<Rightarrow> (string \<times> val) list \<Rightarrow> string \<Rightarrow> conn \<Rightarrow> conn" where
  "other_writer tname id_value updates new_uid c =
     (let c2 = snd (SCDHelper_create_new_version tname id_value updates new_uid (c\<lparr>txn := Idle\<rparr>))
      in c\<lparr>committed := committed c2,
           txn := (case txn c of Active d \<Rightarrow> Active (committed c2) | x \<Rightarrow> x)\<rparr>)"

text \<open>
  The engine of the specification, which the code is compared with: when the write is
  refused because of a conflict (the INSERT violates a key), roll back and run the whole
  read-derive-write sequence again, at most \<open>n\<close> more times, before the error is
  surfaced. The other writer acts during the first attempt only.
\<close>

definition rollback :: "conn \<Rightarrow> conn" where
  "rollback c = c\<lparr>txn := Idle\<rparr>"

fun retrying ::
  "nat \<Rightarrow> (conn \<Rightarrow> conn) \<Rightarrow> string \<Rightarrow> string \<Rightarrow> (string \<times> val) list \<Rightarrow> string \<Rightarrow>
   row option action" where
  "retrying 0 other tname id_value updates new_uid c =
     interleaved other tname id_value updates new_uid c"
| "retrying (Suc n) other tname id_value updates new_uid c =
     (case interleaved other tname id_value updates new_uid c of
        (Inl IntegrityError, c') \<Rightarrow>
          retrying n (\<lambda>c. c) tname id_value updates new_uid (rollback c')
      | r \<Rightarrow> r)"

section \<open>Content of a row, and the last row of each id\<close>





section \<open>Auxiliary facts\<close>

lemma map_unchanged: "\<forall>r \<in> set rs. \<not> P r \<Longrightarrow> map (\<lambda>r. if P r then f r else r) rs = rs"
  by (induction rs) auto

lemma filter_none: "\<forall>r \<in> set rs. \<not> P r \<Longrightarrow> filter P rs = []"
  by (induction rs) auto

lemma flag_create_no_row:
  assumes "the_view c = Some d" and "d (tname @ ''_flag'') = Some t"
    and "''id'' \<in> set (columns t)" and "''version'' \<in> set (columns t)"
    and "''is_current'' \<in> set (columns t)"
    and "\<forall>r \<in> set (rows t). cell (columns t) ''id'' r \<noteq> VStr id_value"
  shows "then_do (execute_update (\<lambda>d. Inr d))
           (\<lambda>_. execute_update (update_clear_current (tname @ ''_flag'') id_value)) c
         = (Inr (), c\<lparr>txn := Active d\<rparr>)
       \<and> FlagVersioningHelper_create_new_version tname id_value updates new_uid c
         = (Inl TypeError, c\<lparr>txn := Active d\<rparr>)"
proof -
  have m: "map (clear_flag (columns t) id_value) (rows t) = rows t"
    using assms(6) by (intro map_idI) (simp add: clear_flag_def)
  have f: "filter (\<lambda>r. cell (columns t) ''id'' r = VStr id_value) (rows t) = []"
    using assms(6) by (intro filter_none) auto
  have u: "update_clear_current (tname @ ''_flag'') id_value d = Inr d"
    using assms(2-5) by (simp add: update_clear_current_def m map_upd_triv)
  have q: "select_max_version (tname @ ''_flag'') id_value d = Inr (VInt 0)"
    using assms(2-5) by (simp add: select_max_version_def f)
  have s: "select_version (tname @ ''_flag'') id_value (VInt 0) d = Inr None"
    using assms(2-6) by (auto simp add: select_version_def find_None_iff)
  show ?thesis
    using assms(1) u q s
    by (simp add: FlagVersioningHelper_create_new_version_def then_do_def execute_update_def
        execute_query_def the_view_def python_def flag_values_def and_then_def py_subscript_def)
qed

section \<open>FlagVersioningHelper on an id that has no row\<close>

text \<open>
  Claim C10. \<^verbatim>\<open>FlagVersioningHelper.create_new_version\<close>, called with an id that has no
  row in the flag table, first runs \<^verbatim>\<open>BEGIN\<close> and the flag-clearing \<^verbatim>\<open>UPDATE\<close> (which
  succeed and leave the transaction open), then reads \<^verbatim>\<open>None\<close> as the original row and
  fails with the TypeError of \<^verbatim>\<open>original[4]\<close>: not with the
  \<^verbatim>\<open>Exception("No record found ...")\<close> of the other helpers. The transaction is still
  open when the error leaves the function, and nothing has been committed.
\<close>

theorem flag_create_missing_id:
  assumes "the_view c = Some d" and "d (tname @ ''_flag'') = Some t"
    and "''id'' \<in> set (columns t)" and "''version'' \<in> set (columns t)"
    and "''is_current'' \<in> set (columns t)"
    and "\<forall>r \<in> set (rows t). cell (columns t) ''id'' r \<noteq> VStr id_value"
  shows "then_do (execute_update (\<lambda>d. Inr d))
           (\<lambda>_. execute_update (update_clear_current (tname @ ''_flag'') id_value)) c
         = (Inr (), c\<lparr>txn := Active d\<rparr>)
       \<and> FlagVersioningHelper_create_new_version tname id_value updates new_uid c
         = (Inl TypeError, c\<lparr>txn := Active d\<rparr>)"
  using assms by (rule flag_create_no_row)

theorem flag_create_missing_id_witness:
  "FlagVersioningHelper_create_new_version ''jobs'' ''job7''
     [(''status'', VStr ''updated''), (''rate'', VInt 150)] ''c7'' seeded_conn
   = (Inl TypeError, seeded_conn\<lparr>txn := Active seeded_db\<rparr>)"
  using flag_create_missing_id [of seeded_conn seeded_db "''jobs''" seeded_jobs_flag "''job7''"
      "[(''status'', VStr ''updated''), (''rate'', VInt 150)]" "''c7''"]
  by (simp add: seeded_conn_def the_view_def seeded_db_def seeded_jobs_flag_def flag_columns_def
      cell_def)

section \<open>Creating a version of an id that has no row\<close>

lemma order_desc_first_Nil_iff: "order_desc_first key rs = None \<longleftrightarrow> rs = []"
  by (induction rs) (auto split: option.splits)

text \<open>
  Claim C4, as the code has it. Called for an id that has no row, \<^verbatim>\<open>SCDHelper\<close> and
  \<^verbatim>\<open>TimestampVersioningHelper\<close> raise Python's base class
  \<^verbatim>\<open>Exception("No record found with id <id>")\<close> and the Django helper raises
  \<^verbatim>\<open>Exception("Not found")\<close>. Nothing is written: the psycopg2 helpers leave the
  transaction that their SELECT opened, with the store as it was, and the Django table is
  unchanged.
\<close>

theorem create_version_missing_id:
  assumes "the_view c = Some d"
    and "d tname = Some t" and "''id'' \<in> set (columns t)" and "''version'' \<in> set (columns t)"
    and "\<forall>r \<in> set (rows t). cell (columns t) ''id'' r \<noteq> VStr id_value"
    and "d (tname @ ''_ts'') = Some ts"
    and "''id'' \<in> set (columns ts)" and "''created_at'' \<in> set (columns ts)"
    and "\<forall>r \<in> set (rows ts). cell (columns ts) ''id'' r \<noteq> VStr id_value"
    and "\<forall>r \<in> set (rows model). cell (columns model) ''id'' r \<noteq> VStr id_value"
  shows "SCDHelper_create_new_version tname id_value updates new_uid c
           = (Inl (Exception (''No record found with id '' @ id_value)), c\<lparr>txn := Active d\<rparr>)
       \<and> TimestampVersioningHelper_create_new_version tname id_value updates now new_uid c
           = (Inl (Exception (''No record found with id '' @ id_value)), c\<lparr>txn := Active d\<rparr>)
       \<and> create_new_scd_version model id_value update_fn = (Inl (Exception ''Not found''), model)"
proof -
  have f1: "filter (\<lambda>r. cell (columns t) ''id'' r = VStr id_value) (rows t) = []"
    using assms(5) by (intro filter_none) auto
  have f2: "filter (\<lambda>r. cell (columns ts) ''id'' r = VStr id_value) (rows ts) = []"
    using assms(9) by (intro filter_none) auto
  have f3: "filter (\<lambda>r. cell (columns model) ''id'' r = VStr id_value) (rows model) = []"
    using assms(10) by (intro filter_none) auto
  have q1: "select_latest tname ''version'' id_value d = Inr None"
    using assms(2-4) by (simp add: select_latest_def f1)
  have q2: "select_latest (tname @ ''_ts'') ''created_at'' id_value d = Inr None"
    using assms(6-8) by (simp add: select_latest_def f2)
  have a: "SCDHelper_create_new_version tname id_value updates new_uid c
           = (Inl (Exception (''No record found with id '' @ id_value)), c\<lparr>txn := Active d\<rparr>)"
    using assms(1) q1
    by (simp add: SCDHelper_create_new_version_def then_do_def execute_query_def raise_def)
  have b: "TimestampVersioningHelper_create_new_version tname id_value updates now new_uid c
           = (Inl (Exception (''No record found with id '' @ id_value)), c\<lparr>txn := Active d\<rparr>)"
    using assms(1) q2
    by (simp add: TimestampVersioningHelper_create_new_version_def then_do_def execute_query_def
        raise_def)
  have c: "create_new_scd_version model id_value update_fn = (Inl (Exception ''Not found''), model)"
    by (simp add: create_new_scd_version_def f3)
  from a b c show ?thesis by simp
qed

theorem create_version_missing_id_witness:
  "SCDHelper_create_new_version ''jobs'' ''job7'' [(''status'', VStr ''updated'')] ''a7'' seeded_conn
     = (Inl (Exception ''No record found with id job7''), seeded_conn\<lparr>txn := Active seeded_db\<rparr>)
   \<and> TimestampVersioningHelper_create_new_version ''jobs'' ''job7'' [(''status'', VStr ''updated'')]
       2000 ''a7'' seeded_conn
     = (Inl (Exception ''No record found with id job7''), seeded_conn\<lparr>txn := Active seeded_db\<rparr>)
   \<and> create_new_scd_version seeded_Job ''job7'' Inr = (Inl (Exception ''Not found''), seeded_Job)"
  using create_version_missing_id [where c = seeded_conn and d = seeded_db and tname = "''jobs''"
      and t = seeded_jobs and id_value = "''job7''" and ts = seeded_jobs_ts and model = seeded_Job
      and updates = "[(''status'', VStr ''updated'')]" and new_uid = "''a7''" and now = 2000
      and update_fn = Inr]
  by (simp add: seeded_conn_def the_view_def seeded_db_def seeded_jobs_def seeded_jobs_ts_def
      seeded_Job_def jobs_columns_def ts_columns_def job_columns_def cell_def)

text \<open>
  The claim asks for a typed NotFound error, never a generic failure. The error raised
  for the unknown id \<^verbatim>\<open>job7\<close> is of the class \<^verbatim>\<open>Exception\<close> itself in \<^verbatim>\<open>SCDHelper\<close>
  and in the Django helper, and a \<^verbatim>\<open>TypeError\<close> in \<^verbatim>\<open>FlagVersioningHelper\<close>.
\<close>

theorem missing_id_error_is_generic:
  "map_sum error_class id
     (fst (SCDHelper_create_new_version ''jobs'' ''job7'' [] ''a7'' seeded_conn)) = Inl ''Exception''
   \<and> map_sum error_class id (fst (create_new_scd_version seeded_Job ''job7'' Inr)) = Inl ''Exception''
   \<and> map_sum error_class id
     (fst (FlagVersioningHelper_create_new_version ''jobs'' ''job7'' [] ''c7'' seeded_conn)) = Inl ''TypeError''"
  by (simp add: SCDHelper_create_new_version_def then_do_def execute_query_def raise_def
      the_view_def seeded_conn_def seeded_db_def select_latest_def seeded_jobs_def jobs_columns_def
      cell_def create_new_scd_version_def seeded_Job_def job_columns_def and_then_def
      FlagVersioningHelper_create_new_version_def execute_update_def update_clear_current_def
      clear_flag_def seeded_jobs_flag_def flag_columns_def select_max_version_def select_version_def python_def
      flag_values_def py_subscript_def)

section \<open>Facts about the counter helper\<close>

lemma index_of_Some: "index_of xs x = Some i \<Longrightarrow> i < length xs \<and> xs ! i = x"
  by (induction xs arbitrary: i) (auto split: if_splits)

lemma index_of_mem: "x \<in> set xs \<Longrightarrow> \<exists>i. index_of xs x = Some i"
  by (induction xs) auto

lemma index_of_None: "x \<notin> set xs \<Longrightarrow> index_of xs x = None"
  by (induction xs) auto

lemma index_of_nth: "distinct xs \<Longrightarrow> j < length xs \<Longrightarrow> index_of xs (xs ! j) = Some j"
proof (induction xs arbitrary: j)
  case Nil
  then show ?case by simp
next
  case (Cons y ys)
  show ?case
  proof (cases j)
    case 0
    then show ?thesis by simp
  next
    case (Suc k)
    with Cons.prems have "ys ! k \<in> set ys" and "y \<notin> set ys" by auto
    then have "y \<noteq> ys ! k" by auto
    with Cons Suc show ?thesis by simp
  qed
qed

lemma cell_nth: "distinct cols \<Longrightarrow> j < length cols \<Longrightarrow> length r = length cols \<Longrightarrow>
    cell cols (cols ! j) r = r ! j"
  by (simp add: cell_def index_of_nth)

lemma apply_updates_filter:
  "apply_updates cols updates nd = apply_updates cols (filter (\<lambda>kv. fst kv \<in> set cols) updates) nd"
  by (induction cols updates nd rule: apply_updates.induct)
    (auto simp: and_then_def split: sum.splits)

lemma apply_updates_result:
  assumes "distinct cols" and "length nd = length cols"
  shows "apply_updates cols updates nd =
           Inr (map (\<lambda>j. case map_of (rev updates) (cols ! j) of Some x \<Rightarrow> x | None \<Rightarrow> nd ! j)
                  [0..<length cols])"
  using assms(2)
proof (induction updates arbitrary: nd)
  case Nil
  then show ?case using map_nth [of nd] by simp
next
  case (Cons kv rest)
  obtain col "value" where kv: "kv = (col, value)" by (cases kv)
  show ?case
  proof (cases "col \<in> set cols")
    case False
    then have "\<And>j. j < length cols \<Longrightarrow> cols ! j \<noteq> col" by auto
    then have "map (\<lambda>j. case map_of (rev (kv # rest)) (cols ! j) of Some x \<Rightarrow> x | None \<Rightarrow> nd ! j)
                 [0..<length cols]
             = map (\<lambda>j. case map_of (rev rest) (cols ! j) of Some x \<Rightarrow> x | None \<Rightarrow> nd ! j)
                 [0..<length cols]"
      by (auto simp: kv map_add_def split: option.splits)
    with False Cons show ?thesis by (simp add: kv)
  next
    case True
    then obtain i where i: "index_of cols col = Some i" using index_of_mem by blast
    then have il: "i < length cols" and ic: "cols ! i = col" using index_of_Some by auto
    have eq: "\<And>j. j < length cols \<Longrightarrow> (cols ! j = col) = (j = i)"
      using assms(1) il ic by (auto simp: nth_eq_iff_index_eq)
    have "map (\<lambda>j. case map_of (rev (kv # rest)) (cols ! j) of Some x \<Rightarrow> x | None \<Rightarrow> nd ! j)
                 [0..<length cols]
        = map (\<lambda>j. case map_of (rev rest) (cols ! j) of Some x \<Rightarrow> x | None \<Rightarrow> nd[i := value] ! j)
                 [0..<length cols]"
      using Cons.prems il by (auto simp: kv map_add_def eq split: option.splits)
    moreover have "apply_updates cols (kv # rest) nd = apply_updates cols rest (nd[i := value])"
      using True i il Cons.prems by (simp add: kv and_then_def py_index_def py_setitem_def)
    ultimately show ?thesis using Cons.IH [of "nd[i := value]"] Cons.prems by simp
  qed
qed

lemma prepare_new_data_result:
  assumes "distinct cols" and "length latest = length cols"
    and "''version'' \<in> set cols" and "''uid'' \<in> set cols"
    and "cell cols ''version'' latest = VInt v"
  shows "prepare_new_data latest cols updates new_uid = Inr (derived_row cols latest updates new_uid v)"
proof -
  obtain vi where vi: "index_of cols ''version'' = Some vi" using assms(3) index_of_mem by blast
  obtain ui where ui: "index_of cols ''uid'' = Some ui" using assms(4) index_of_mem by blast
  have vil: "vi < length cols" and vic: "cols ! vi = ''version''" using vi index_of_Some by auto
  have uil: "ui < length cols" and uic: "cols ! ui = ''uid''" using ui index_of_Some by auto
  have lv: "latest ! vi = VInt v" using assms(5) vi vil assms(2) by (simp add: cell_def)
  have veq: "\<And>j. j < length cols \<Longrightarrow> (cols ! j = ''version'') = (j = vi)"
    by (metis assms(1) vil vic nth_eq_iff_index_eq)
  have ueq: "\<And>j. j < length cols \<Longrightarrow> (cols ! j = ''uid'') = (j = ui)"
    by (metis assms(1) uil uic nth_eq_iff_index_eq)
  have au: "apply_updates cols updates (latest[vi := VInt (v + 1)]) =
      Inr (map (\<lambda>j. case map_of (rev updates) (cols ! j) of Some x \<Rightarrow> x
                    | None \<Rightarrow> latest[vi := VInt (v + 1)] ! j) [0..<length cols])"
    using assms(1,2) by (intro apply_updates_result) auto
  have "(map (\<lambda>j. case map_of (rev updates) (cols ! j) of Some x \<Rightarrow> x
                    | None \<Rightarrow> latest[vi := VInt (v + 1)] ! j) [0..<length cols])[ui := VStr new_uid]
        = derived_row cols latest updates new_uid v"
  proof (rule nth_equalityI)
    show "length ((map (\<lambda>j. case map_of (rev updates) (cols ! j) of Some x \<Rightarrow> x
                    | None \<Rightarrow> latest[vi := VInt (v + 1)] ! j) [0..<length cols])[ui := VStr new_uid])
          = length (derived_row cols latest updates new_uid v)"
      by (simp add: derived_row_def)
  next
    fix j
    assume "j < length ((map (\<lambda>j. case map_of (rev updates) (cols ! j) of Some x \<Rightarrow> x
                    | None \<Rightarrow> latest[vi := VInt (v + 1)] ! j) [0..<length cols])[ui := VStr new_uid])"
    then have j: "j < length cols" by simp
    show "(map (\<lambda>j. case map_of (rev updates) (cols ! j) of Some x \<Rightarrow> x
                    | None \<Rightarrow> latest[vi := VInt (v + 1)] ! j) [0..<length cols])[ui := VStr new_uid] ! j
          = derived_row cols latest updates new_uid v ! j"
      using j assms(1,2) veq [OF j] ueq [OF j]
      by (auto simp: derived_row_def nth_list_update cell_nth split: option.splits)
  qed
  then show ?thesis
    using vi ui vil uil lv assms(2) au
    by (simp add: prepare_new_data_def and_then_def py_index_def py_getitem_def py_setitem_def)
qed

lemma named_values_row:
  assumes "distinct cols" and "length vals = length cols"
  shows "map (\<lambda>c. case map_of (zip cols vals) c of Some v \<Rightarrow> v | None \<Rightarrow> VNull) cols = vals"
proof (rule nth_equalityI)
  show "length (map (\<lambda>c. case map_of (zip cols vals) c of Some v \<Rightarrow> v | None \<Rightarrow> VNull) cols)
        = length vals"
    using assms(2) by simp
next
  fix i
  assume "i < length (map (\<lambda>c. case map_of (zip cols vals) c of Some v \<Rightarrow> v | None \<Rightarrow> VNull) cols)"
  then have i: "i < length cols" by simp
  then have "map_of (zip cols vals) (cols ! i) = Some (vals ! i)"
    using assms by (intro map_of_zip_nth) auto
  with i show "map (\<lambda>c. case map_of (zip cols vals) c of Some v \<Rightarrow> v | None \<Rightarrow> VNull) cols ! i
               = vals ! i"
    by simp
qed

lemma insert_into_all_columns:
  assumes "d tname = Some t" and "distinct (columns t)" and "length vals = length (columns t)"
  shows "insert_into tname (columns t) vals d =
           (if violates t vals then Inl IntegrityError
            else Inr (d(tname \<mapsto> t\<lparr>rows := rows t @ [vals]\<rparr>)))"
  using assms by (simp add: insert_into_def named_values_row)

lemma desc_before_irrefl: "\<not> desc_before a a"
  by (cases a) auto

lemma desc_before_asym: "desc_before a b \<Longrightarrow> \<not> desc_before b a"
  by (cases a; cases b) auto

lemma order_desc_first_mem: "order_desc_first key rs = Some x \<Longrightarrow> x \<in> set rs"
  by (induction rs arbitrary: x) (auto split: option.splits if_splits)

lemma order_desc_first_greatest:
  assumes "b \<in> set rs" and "\<forall>r \<in> set rs. r \<noteq> b \<longrightarrow> desc_before (key b) (key r)"
  shows "order_desc_first key rs = Some b"
  using assms
proof (induction rs)
  case Nil
  then show ?case by simp
next
  case (Cons r rs)
  show ?case
  proof (cases "b \<in> set rs")
    case True
    with Cons have "order_desc_first key rs = Some b" by simp
    with Cons.prems show ?thesis by (auto simp: desc_before_irrefl)
  next
    case False
    with Cons.prems have rb: "r = b" by simp
    show ?thesis
    proof (cases "order_desc_first key rs")
      case None
      with rb show ?thesis by simp
    next
      case (Some x)
      then have "x \<in> set rs" by (rule order_desc_first_mem)
      with False Cons.prems have "desc_before (key b) (key x)" by auto
      then have "\<not> desc_before (key x) (key b)" by (rule desc_before_asym)
      with Some rb show ?thesis by simp
    qed
  qed
qed

lemma derived_row_length: "length (derived_row cols current updates new_uid v) = length cols"
  by (simp add: derived_row_def)

lemma scd_create_result:
  assumes view: "the_view c = Some d" and tab: "d tname = Some t"
    and cols: "distinct (columns t)" "''id'' \<in> set (columns t)" "''version'' \<in> set (columns t)"
      "''uid'' \<in> set (columns t)"
    and latest: "latest \<in> set (rows t)" "length latest = length (columns t)"
      "cell (columns t) ''id'' latest = VStr id_value" "cell (columns t) ''version'' latest = VInt v"
    and others: "\<forall>r \<in> set (rows t). cell (columns t) ''id'' r = VStr id_value \<longrightarrow> r \<noteq> latest \<longrightarrow>
       (\<exists>w. cell (columns t) ''version'' r = VInt w \<and> w < v)"
  shows "SCDHelper_create_new_version tname id_value updates new_uid c =
     (if violates t (derived_row (columns t) latest updates new_uid v)
      then (Inl IntegrityError, c\<lparr>txn := Failed\<rparr>)
      else (Inr None,
            c\<lparr>committed := d(tname \<mapsto>
                 t\<lparr>rows := rows t @ [derived_row (columns t) latest updates new_uid v]\<rparr>),
              txn := Idle\<rparr>))"
proof -
  let ?rs = "filter (\<lambda>r. cell (columns t) ''id'' r = VStr id_value) (rows t)"
  have "latest \<in> set ?rs" using latest by simp
  moreover have "\<forall>r \<in> set ?rs. r \<noteq> latest \<longrightarrow>
      desc_before (cell (columns t) ''version'' latest) (cell (columns t) ''version'' r)"
    using others latest(4) by auto
  ultimately have "order_desc_first (cell (columns t) ''version'') ?rs = Some latest"
    by (rule order_desc_first_greatest)
  then have q: "select_latest tname ''version'' id_value d = Inr (Some latest)"
    using tab cols by (simp add: select_latest_def)
  have ne: "latest \<noteq> []" using latest(2) cols(2) by auto
  have p: "prepare_new_data latest (columns t) updates new_uid
             = Inr (derived_row (columns t) latest updates new_uid v)"
    using cols latest by (intro prepare_new_data_result) auto
  have i: "insert_into tname (columns t) (derived_row (columns t) latest updates new_uid v) d =
           (if violates t (derived_row (columns t) latest updates new_uid v) then Inl IntegrityError
            else Inr (d(tname \<mapsto>
                   t\<lparr>rows := rows t @ [derived_row (columns t) latest updates new_uid v]\<rparr>)))"
    using tab cols(1) by (intro insert_into_all_columns) (auto simp: derived_row_length)
  show ?thesis
    using view q ne p i tab
    by (simp add: SCDHelper_create_new_version_def then_do_def execute_query_def the_view_def
        select_column_names_def python_def execute_update_def commit_def returns_def)
qed

lemma prepare_new_data_filter:
  "prepare_new_data latest cols updates new_uid =
   prepare_new_data latest cols (filter (\<lambda>kv. fst kv \<in> set cols) updates) new_uid"
  using apply_updates_filter [of cols updates] by (simp add: prepare_new_data_def)

section \<open>Update keys that are not columns\<close>

text \<open>
  Claim C9. In \<^verbatim>\<open>SCDHelper.create_new_version\<close> a key of \<^verbatim>\<open>updates\<close> that is not a column
  of the table has no effect: the call with the whole mapping is the call with only the
  entries whose key is a column, in its result and in the state of the connection. So
  the row is inserted as it is without the unknown keys.
\<close>

theorem unknown_update_keys_ignored:
  assumes "the_view c = Some d" and "d tname = Some t"
  shows "SCDHelper_create_new_version tname id_value updates new_uid c =
         SCDHelper_create_new_version tname id_value
           (filter (\<lambda>kv. fst kv \<in> set (columns t)) updates) new_uid c"
proof -
  have "prepare_new_data latest (columns t) updates new_uid =
        prepare_new_data latest (columns t) (filter (\<lambda>kv. fst kv \<in> set (columns t)) updates) new_uid"
    for latest
    by (rule prepare_new_data_filter)
  then show ?thesis
    using assms
    by (simp add: SCDHelper_create_new_version_def then_do_def execute_query_def the_view_def
        select_column_names_def python_def split: sum.splits)
qed

theorem unknown_update_keys_ignored_witness:
  "SCDHelper_create_new_version ''jobs'' ''job1''
     [(''salary'', VInt 9), (''status'', VStr ''updated''), (''Rate'', VInt 1)] ''a2'' seeded_conn
   = SCDHelper_create_new_version ''jobs'' ''job1'' [(''status'', VStr ''updated'')] ''a2'' seeded_conn
   \<and> map_option rows (committed (snd (SCDHelper_create_new_version ''jobs'' ''job1''
        [(''salary'', VInt 9), (''status'', VStr ''updated''), (''Rate'', VInt 1)] ''a2'' seeded_conn))
        ''jobs'')
     = Some (rows seeded_jobs @
         [[VStr ''job1'', VInt 2, VStr ''a2'', VStr ''updated'', VInt 100, VStr ''Engineer'',
           VStr ''comp1'', VStr ''cont1'']])"
proof -
  have v: "the_view seeded_conn = Some seeded_db"
    by (simp add: the_view_def seeded_conn_def)
  have t: "seeded_db ''jobs'' = Some seeded_jobs"
    by (simp add: seeded_db_def)
  have f: "filter (\<lambda>kv. fst kv \<in> set (columns seeded_jobs))
             [(''salary'', VInt 9), (''status'', VStr ''updated''), (''Rate'', VInt 1)]
           = [(''status'', VStr ''updated'')]"
    by (simp add: seeded_jobs_def jobs_columns_def)
  have e: "SCDHelper_create_new_version ''jobs'' ''job1''
     [(''salary'', VInt 9), (''status'', VStr ''updated''), (''Rate'', VInt 1)] ''a2'' seeded_conn
   = SCDHelper_create_new_version ''jobs'' ''job1'' [(''status'', VStr ''updated'')] ''a2'' seeded_conn"
    using unknown_update_keys_ignored [OF v t, of "''job1''"
        "[(''salary'', VInt 9), (''status'', VStr ''updated''), (''Rate'', VInt 1)]" "''a2''"]
    by (simp only: f)
  have r: "map_option rows (committed (snd (SCDHelper_create_new_version ''jobs'' ''job1''
        [(''status'', VStr ''updated'')] ''a2'' seeded_conn)) ''jobs'')
     = Some (rows seeded_jobs @
         [[VStr ''job1'', VInt 2, VStr ''a2'', VStr ''updated'', VInt 100, VStr ''Engineer'',
           VStr ''comp1'', VStr ''cont1'']])"
    by (simp add: SCDHelper_create_new_version_def then_do_def execute_query_def the_view_def
        seeded_conn_def seeded_db_def seeded_jobs_def jobs_columns_def select_latest_def cell_def
        select_column_names_def python_def prepare_new_data_def and_then_def py_index_def
        py_getitem_def py_setitem_def execute_update_def insert_into_def violates_def commit_def
        returns_def)
  from e r show ?thesis by simp
qed

section \<open>The row a new version gets\<close>

lemma cell_set_cell_other: "a \<noteq> b \<Longrightarrow> cell cols a (set_cell cols b x r) = cell cols a r"
proof (cases "index_of cols a"; cases "index_of cols b")
  fix i j
  assume ab: "a \<noteq> b" and i: "index_of cols a = Some i" and j: "index_of cols b = Some j"
  then have "cols ! i = a" and "cols ! j = b" using index_of_Some by auto
  with ab have "i \<noteq> j" by auto
  with i j show ?thesis by (simp add: cell_def set_cell_def)
qed (simp_all add: cell_def set_cell_def)

text \<open>
  Claim C1, as the code has it. Let the id have a current row: the one row of the id with
  the greatest version, an integer. \<^verbatim>\<open>SCDHelper.create_new_version\<close> then inserts and
  commits exactly one row, the derived row (the current row copied, the version
  incremented, the columns named in the update overwritten, the new uid set last),
  provided the database accepts that row: it violates no key of the table and every
  value in it fits the type \<^verbatim>\<open>setup_database\<close> declares for its column. The call itself
  returns \<^verbatim>\<open>None\<close>.
\<close>

theorem create_version_inserts_derived_row:
  assumes view: "the_view c = Some d" and tab: "d tname = Some t"
    and cols: "distinct (columns t)" "''id'' \<in> set (columns t)" "''version'' \<in> set (columns t)"
      "''uid'' \<in> set (columns t)"
    and latest: "latest \<in> set (rows t)" "length latest = length (columns t)"
      "cell (columns t) ''id'' latest = VStr id_value" "cell (columns t) ''version'' latest = VInt v"
    and others: "\<forall>r \<in> set (rows t). cell (columns t) ''id'' r = VStr id_value \<longrightarrow> r \<noteq> latest \<longrightarrow>
       (\<exists>w. cell (columns t) ''version'' r = VInt w \<and> w < v)"
    and ok: "\<not> violates t (derived_row (columns t) latest updates new_uid v)"
    and typed: "fits_declared (columns t) (derived_row (columns t) latest updates new_uid v)"
  shows "SCDHelper_create_new_version tname id_value updates new_uid c =
           (Inr None,
            c\<lparr>committed := d(tname \<mapsto>
                 t\<lparr>rows := rows t @ [derived_row (columns t) latest updates new_uid v]\<rparr>),
              txn := Idle\<rparr>)"
  using scd_create_result [OF view tab cols latest others, of updates new_uid] ok by simp

theorem create_version_inserts_derived_row_witness:
  "SCDHelper_create_new_version ''jobs'' ''job1''
     [(''status'', VStr ''updated''), (''rate'', VInt 150)] ''a2'' seeded_conn
   = (Inr None,
      seeded_conn\<lparr>committed := seeded_db(''jobs'' \<mapsto> seeded_jobs\<lparr>rows := rows seeded_jobs @
          [[VStr ''job1'', VInt 2, VStr ''a2'', VStr ''updated'', VInt 150, VStr ''Engineer'',
            VStr ''comp1'', VStr ''cont1'']]\<rparr>),
        txn := Idle\<rparr>)"
  using create_version_inserts_derived_row [where c = seeded_conn and d = seeded_db
      and tname = "''jobs''" and t = seeded_jobs and id_value = "''job1''" and v = 1
      and latest = "[VStr ''job1'', VInt 1, VStr ''a1'', VStr ''active'', VInt 100, VStr ''Engineer'',
              VStr ''comp1'', VStr ''cont1'']"
      and updates = "[(''status'', VStr ''updated''), (''rate'', VInt 150)]" and new_uid = "''a2''"]
  by (simp add: seeded_conn_def the_view_def seeded_db_def seeded_jobs_def jobs_columns_def
      cell_def derived_row_def violates_def fits_declared_def declared_types_def)

text \<open>
  The claim as stated fails. \<^verbatim>\<open>SCDHelper.create_new_version\<close> inserts the row of the
  specification's scenario but returns \<^verbatim>\<open>None\<close>, not that row; an update that names
  \<^verbatim>\<open>version\<close> replaces the incremented version, and one that names \<^verbatim>\<open>uid\<close> is
  overridden by the generated uid.
\<close>

theorem create_version_counterexample:
  "fst (SCDHelper_create_new_version ''jobs'' ''job1''
          [(''status'', VStr ''updated''), (''rate'', VInt 150)] ''a2'' seeded_conn) = Inr None
   \<and> map_option rows (committed (snd (SCDHelper_create_new_version ''jobs'' ''job1''
          [(''status'', VStr ''updated''), (''rate'', VInt 150)] ''a2'' seeded_conn)) ''jobs'')
     = Some (rows seeded_jobs @
         [[VStr ''job1'', VInt 2, VStr ''a2'', VStr ''updated'', VInt 150, VStr ''Engineer'',
           VStr ''comp1'', VStr ''cont1'']])
   \<and> map_option rows (committed (snd (SCDHelper_create_new_version ''jobs'' ''job1''
          [(''version'', VInt 7), (''uid'', VStr ''mine'')] ''a2'' seeded_conn)) ''jobs'')
     = Some (rows seeded_jobs @
         [[VStr ''job1'', VInt 7, VStr ''a2'', VStr ''active'', VInt 100, VStr ''Engineer'',
           VStr ''comp1'', VStr ''cont1'']])"
  by (simp add: SCDHelper_create_new_version_def then_do_def execute_query_def the_view_def
      seeded_conn_def seeded_db_def seeded_jobs_def jobs_columns_def select_latest_def cell_def
      select_column_names_def python_def prepare_new_data_def and_then_def py_index_def
      py_getitem_def py_setitem_def execute_update_def insert_into_def violates_def commit_def
      returns_def)

section \<open>The bulk queries return the current rows\<close>

lemma sql_max_map:
  assumes "\<And>a b. desc_before (f a) (f b) = (b < a)" and "\<And>a. f a \<noteq> VNull"
  shows "sql_max (map f xs) = (if xs = [] then VNull else f (Max (set xs)))"
proof (induction xs)
  case Nil
  then show ?case by simp
next
  case (Cons a as)
  show ?case
  proof (cases "as = []")
    case True
    then show ?thesis using assms(2) by simp
  next
    case False
    then have m: "sql_max (map f as) = f (Max (set as))" using Cons by simp
    have "Max (set (a # as)) = max a (Max (set as))" using False by simp
    then show ?thesis using assms m by (auto simp: Let_def max_def)
  qed
qed

lemma group_is_current:
  fixes f :: "int \<Rightarrow> val"
  assumes f: "\<And>a b. desc_before (f a) (f b) = (b < a)" "\<And>a. f a \<noteq> VNull" "\<And>a. int_of (f a) = a"
    and typed: "\<forall>r \<in> set rs. \<exists>v. key r = f v"
    and r: "r \<in> set rs" "same r"
  shows "sql_eq (key r) (sql_max (map key (filter same rs)))
         \<longleftrightarrow> (\<forall>r' \<in> set rs. same r' \<longrightarrow> int_of (key r') \<le> int_of (key r))"
proof -
  let ?g = "filter same rs"
  let ?xs = "map (\<lambda>u. int_of (key u)) ?g"
  have k: "map key ?g = map f ?xs"
    using typed f(3) by (auto simp: comp_def)
  have ne: "?xs \<noteq> []" using r by (auto simp: filter_empty_conv)
  have mx: "sql_max (map key ?g) = f (Max (set ?xs))"
    using sql_max_map [OF f(1,2), of ?xs] ne by (simp only: k if_False)
  obtain b where b: "key r = f b" using typed r(1) by blast
  have "int_of (key r) = b" using b f(3) by simp
  moreover have "r \<in> set ?g" using r by simp
  ultimately have bin: "b \<in> set ?xs" by (metis (no_types, lifting) image_eqI set_map)
  have inj: "f x = f y \<longleftrightarrow> x = y" for x y using f(3) by metis
  have "sql_eq (key r) (sql_max (map key ?g)) \<longleftrightarrow> b = Max (set ?xs)"
    by (simp add: mx b sql_eq_def f(2) inj)
  also have "\<dots> \<longleftrightarrow> (\<forall>a \<in> set ?xs. a \<le> b)"
    using bin by (metis List.finite_set Max_eqI Max_ge)
  also have "\<dots> \<longleftrightarrow> (\<forall>r' \<in> set rs. same r' \<longrightarrow> int_of (key r') \<le> int_of (key r))"
    using b f(3) by auto
  finally show ?thesis .
qed

lemma concat_map_if: "concat (map (\<lambda>x. if C x then [x] else []) xs) = filter C xs"
  by (induction xs) auto

lemma filter_group:
  assumes "distinct ks" and "k \<in> set ks"
  shows "filter (\<lambda>g. fst g = k \<and> Q (snd g)) (map (\<lambda>i. (i, h i)) ks)
         = (if Q (h k) then [(k, h k)] else [])"
  using assms
proof (induction ks)
  case Nil
  then show ?case by simp
next
  case (Cons a ks)
  show ?case
  proof (cases "a = k")
    case True
    with Cons.prems have "k \<notin> set ks" by simp
    then have "filter (\<lambda>g. fst g = k \<and> Q (snd g)) (map (\<lambda>i. (i, h i)) ks) = []"
      by (auto simp: filter_empty_conv)
    with True show ?thesis by simp
  next
    case False
    with Cons show ?thesis by simp
  qed
qed

lemma select_join_max_result:
  fixes f :: "int \<Rightarrow> val"
  assumes tab: "d tname = Some t" and cols: "''id'' \<in> set (columns t)" "col \<in> set (columns t)"
    and f: "\<And>a b. desc_before (f a) (f b) = (b < a)" "\<And>a. f a \<noteq> VNull" "\<And>a. int_of (f a) = a"
    and typed: "\<forall>r \<in> set (rows t). cell (columns t) ''id'' r \<noteq> VNull \<and>
                  (\<exists>v. cell (columns t) col r = f v)"
  shows "select_join_max tname col d = Inr (current_rows col t)"
proof -
  let ?id = "cell (columns t) ''id''" and ?k = "cell (columns t) col"
  let ?h = "\<lambda>i. sql_max (map ?k (filter (\<lambda>r. ?id r = i) (rows t)))"
  have g: "group_max (columns t) col (rows t) = map (\<lambda>i. (i, ?h i)) (remdups (map ?id (rows t)))"
    by (simp add: group_max_def)
  have one: "map (\<lambda>t2. t1)
               (filter (\<lambda>t2. sql_eq (?id t1) (fst t2) \<and> sql_eq (?k t1) (snd t2))
                  (group_max (columns t) col (rows t)))
             = (if \<forall>r' \<in> set (rows t). ?id r' = ?id t1 \<longrightarrow> int_of (?k r') \<le> int_of (?k t1)
                then [t1] else [])"
    if t1: "t1 \<in> set (rows t)" for t1
  proof -
    have nn: "?id t1 \<noteq> VNull" using typed t1 by blast
    have c: "(\<lambda>t2. sql_eq (?id t1) (fst t2) \<and> sql_eq (?k t1) (snd t2))
             = (\<lambda>g. fst g = ?id t1 \<and> sql_eq (?k t1) (snd g))"
      using nn by (auto simp: sql_eq_def fun_eq_iff)
    have "filter (\<lambda>g. fst g = ?id t1 \<and> sql_eq (?k t1) (snd g))
            (map (\<lambda>i. (i, ?h i)) (remdups (map ?id (rows t))))
          = (if sql_eq (?k t1) (?h (?id t1)) then [(?id t1, ?h (?id t1))] else [])"
      using t1 by (intro filter_group) auto
    moreover have "sql_eq (?k t1) (?h (?id t1))
        \<longleftrightarrow> (\<forall>r' \<in> set (rows t). ?id r' = ?id t1 \<longrightarrow> int_of (?k r') \<le> int_of (?k t1))"
      using typed t1 by (intro group_is_current [OF f]) auto
    ultimately show ?thesis by (simp add: g c)
  qed
  have "concat (map (\<lambda>t1. map (\<lambda>t2. t1)
               (filter (\<lambda>t2. sql_eq (?id t1) (fst t2) \<and> sql_eq (?k t1) (snd t2))
                  (group_max (columns t) col (rows t)))) (rows t))
        = concat (map (\<lambda>t1. if \<forall>r' \<in> set (rows t). ?id r' = ?id t1 \<longrightarrow>
                                  int_of (?k r') \<le> int_of (?k t1)
                             then [t1] else []) (rows t))"
    using one by (intro arg_cong [where f = concat] map_cong) auto
  also have "\<dots> = current_rows col t"
    by (simp add: concat_map_if current_rows_def)
  finally show ?thesis using tab cols by (simp add: select_join_max_def)
qed

lemma version_is_greatest:
  assumes typed: "\<forall>r \<in> set (rows model). cell (columns model) ''id'' r \<noteq> VNull \<and>
                  (\<exists>v. cell (columns model) ''version'' r = VInt v)"
    and r: "r \<in> set (rows model)"
  shows "sql_eq (cell (columns model) ''version'' r)
           (sql_max (map (cell (columns model) ''version'')
              (filter (\<lambda>u. sql_eq (cell (columns model) ''id'' u) (cell (columns model) ''id'' r))
                 (rows model))))
         \<longleftrightarrow> (\<forall>r' \<in> set (rows model). cell (columns model) ''id'' r' = cell (columns model) ''id'' r \<longrightarrow>
                int_of (cell (columns model) ''version'' r') \<le> int_of (cell (columns model) ''version'' r))"
proof -
  let ?id = "cell (columns model) ''id''" and ?k = "cell (columns model) ''version''"
  have nn: "?id r \<noteq> VNull" using typed r by blast
  have s: "sql_eq (?id u) (?id r) \<longleftrightarrow> ?id u = ?id r" for u
    using nn by (auto simp: sql_eq_def)
  have "sql_eq (?k r) (sql_max (map ?k (filter (\<lambda>u. ?id u = ?id r) (rows model))))
      \<longleftrightarrow> (\<forall>r' \<in> set (rows model). ?id r' = ?id r \<longrightarrow> int_of (?k r') \<le> int_of (?k r))"
    using typed r by (intro group_is_current [where f = VInt]) auto
  then show ?thesis by (simp add: s)
qed

lemma latest_scd_queryset_result:
  assumes typed: "\<forall>r \<in> set (rows model). cell (columns model) ''id'' r \<noteq> VNull \<and>
                  (\<exists>v. cell (columns model) ''version'' r = VInt v)"
  shows "latest_scd_queryset model None = current_rows ''version'' model"
  using version_is_greatest [OF typed]
  by (auto simp: latest_scd_queryset_def current_rows_def Let_def intro!: filter_cong)

text \<open>
  What a caller gets who applies the predicate to the result, as \<^verbatim>\<open>repos.py\<close> does. On a
  table whose ids are not NULL and whose versions are integers (as \<^verbatim>\<open>models.py\<close> and
  \<^verbatim>\<open>setup_database\<close> declare them), \<^verbatim>\<open>latest_scd_queryset(model)\<close> followed by any filter
  \<open>P\<close> yields the current rows filtered by \<open>P\<close>, the current rows being those whose
  version is the greatest of their id (several rows, should the greatest version occur
  twice); \<^verbatim>\<open>find_active_jobs_by_company\<close> is the instance for the active jobs of a
  company; \<^verbatim>\<open>SCDHelper.get_latest_versions\<close>, which takes no predicate, returns the
  current rows; and a base queryset that yields at least one row has its current rows
  returned.
\<close>

lemma filtered_latest_rows_are_current:
  assumes typed: "\<forall>r \<in> set (rows model). cell (columns model) ''id'' r \<noteq> VNull \<and>
                    (\<exists>v. cell (columns model) ''version'' r = VInt v)"
    and view: "the_view c = Some d" and tab: "d tname = Some t"
    and cols: "''id'' \<in> set (columns t)" "''version'' \<in> set (columns t)"
    and typed_t: "\<forall>r \<in> set (rows t). cell (columns t) ''id'' r \<noteq> VNull \<and>
                    (\<exists>v. cell (columns t) ''version'' r = VInt v)"
    and base: "q \<noteq> []" "set q \<subseteq> set (rows model)"
  shows "filter P (latest_scd_queryset model None) = filter P (current_rows ''version'' model)
       \<and> find_active_jobs_by_company model company_id
           = filter (\<lambda>r. cell (columns model) ''status'' r = VStr ''active'' \<and>
                         cell (columns model) ''company_id'' r = VStr company_id)
               (current_rows ''version'' model)
       \<and> SCDHelper_get_latest_versions tname c
           = (Inr (current_rows ''version'' t), c\<lparr>txn := Active d\<rparr>)
       \<and> latest_scd_queryset model (Some q)
           = filter (\<lambda>r. r \<in> set (current_rows ''version'' model)) q"
proof -
  have l: "latest_scd_queryset model None = current_rows ''version'' model"
    using typed by (rule latest_scd_queryset_result)
  have j: "select_join_max tname ''version'' d = Inr (current_rows ''version'' t)"
    using tab cols typed_t by (intro select_join_max_result [where f = VInt]) auto
  have g: "SCDHelper_get_latest_versions tname c
           = (Inr (current_rows ''version'' t), c\<lparr>txn := Active d\<rparr>)"
    using view j by (simp add: SCDHelper_get_latest_versions_def execute_query_def)
  have a: "find_active_jobs_by_company model company_id
           = filter (\<lambda>r. cell (columns model) ''status'' r = VStr ''active'' \<and>
                         cell (columns model) ''company_id'' r = VStr company_id)
               (current_rows ''version'' model)"
    by (auto simp: find_active_jobs_by_company_def l sql_eq_def intro!: filter_cong)
  have b: "latest_scd_queryset model (Some q)
           = filter (\<lambda>r. r \<in> set (current_rows ''version'' model)) q"
    using base version_is_greatest [OF typed]
    by (auto simp: latest_scd_queryset_def current_rows_def Let_def intro!: filter_cong)
  from l g a b show ?thesis by simp
qed

text \<open>
  Claim C2 fails on \<^verbatim>\<open>latest_scd_queryset\<close> when the predicate is handed over as the base
  queryset and no row satisfies it. Line 9, \<^verbatim>\<open>base_queryset or model.objects.all()\<close>,
  takes an empty queryset for a missing one, so that
  \<^verbatim>\<open>latest_scd_queryset(Job, Job.objects.filter(status='archived'))\<close> on a table with no
  archived job returns the current row of every job, where the claim has no row at all.
\<close>

theorem empty_base_queryset_returns_every_current_row:
  "filter (\<lambda>r. sql_eq (cell job_columns ''status'' r) (VStr ''archived'')) (rows seeded_Job) = []
   \<and> latest_scd_queryset seeded_Job
       (Some (filter (\<lambda>r. sql_eq (cell job_columns ''status'' r) (VStr ''archived''))
                (rows seeded_Job)))
     = [[VStr ''job-uid-1'', VStr ''job1'', VInt 1, VStr ''active'', VInt 100,
         VStr ''Engineer'', VStr ''comp1'', VStr ''cont1''],
        [VStr ''job-uid-0-2'', VStr ''job0'', VInt 2, VStr ''closed'', VInt 100,
         VStr ''Engineer'', VStr ''comp1'', VStr ''cont1'']]"
  by (simp add: latest_scd_queryset_def seeded_Job_def job_columns_def cell_def sql_eq_def)

section \<open>Existing rows keep their business fields\<close>

lemma same_business_fields_refl: "same_business_fields cols r r"
  by (simp add: same_business_fields_def)

lemma rows_preserved_refl: "rows_preserved t t"
  by (simp add: rows_preserved_def list_all2_same same_business_fields_refl)

lemma rows_preserved_append: "rows_preserved t (t\<lparr>rows := rows t @ new\<rparr>)"
  by (simp add: rows_preserved_def list_all2_same same_business_fields_refl)

lemma same_business_fields_clear:
  "same_business_fields cols r (set_cell cols ''is_current'' x r)"
  by (auto simp: same_business_fields_def cell_set_cell_other) (simp add: set_cell_def split: option.splits)

lemma rows_preserved_clear:
  "rows_preserved t (t\<lparr>rows := map (clear_flag (columns t) i) (rows t) @ new\<rparr>)"
  by (simp add: rows_preserved_def list_all2_map2 list_all2_same same_business_fields_refl
      same_business_fields_clear clear_flag_def)

lemma scd_frame:
  assumes "the_view c = Some d" and "d tname = Some t"
  shows "frame_kept tname t c (snd (SCDHelper_create_new_version tname id_value updates new_uid c))"
  using assms
  by (auto simp: SCDHelper_create_new_version_def then_do_def execute_query_def execute_update_def
      raise_def python_def commit_def returns_def frame_kept_def the_view_def insert_into_def
      select_column_names_def Let_def rows_preserved_refl rows_preserved_append
      split: sum.splits txn.splits if_splits option.splits)

lemma ts_frame:
  assumes "the_view c = Some d" and "d (tname @ ''_ts'') = Some t"
  shows "frame_kept (tname @ ''_ts'') t c
           (snd (TimestampVersioningHelper_create_new_version tname id_value updates now new_uid c))"
  using assms
  by (auto simp: TimestampVersioningHelper_create_new_version_def then_do_def execute_query_def
      execute_update_def raise_def python_def commit_def returns_def frame_kept_def the_view_def
      insert_into_def Let_def rows_preserved_refl rows_preserved_append
      split: sum.splits txn.splits if_splits option.splits)

lemma flag_frame:
  assumes "the_view c = Some d" and "d (tname @ ''_flag'') = Some t"
  shows "frame_kept (tname @ ''_flag'') t c
           (snd (FlagVersioningHelper_create_new_version tname id_value updates new_uid c))"
  using assms rows_preserved_clear [of t id_value "[]"]
  by (auto simp: FlagVersioningHelper_create_new_version_def then_do_def execute_query_def
      execute_update_def python_def commit_def returns_def frame_kept_def the_view_def
      insert_into_def update_clear_current_def Let_def rows_preserved_refl rows_preserved_clear
      split: sum.splits txn.splits if_splits option.splits)

text \<open>
  Whatever the arguments and however the call ends, the three helpers of
  \<^verbatim>\<open>comparative_benchmark.py\<close> leave every row they found with its business fields
  unchanged, in the transaction and in the committed store: the counter and the
  timestamp helper only append, the flag helper also clears \<^verbatim>\<open>is_current\<close>.
\<close>

lemma sql_helpers_preserve_rows:
  assumes view: "the_view c = Some d"
    and tabs: "d tname = Some t" "d (tname @ ''_ts'') = Some ts" "d (tname @ ''_flag'') = Some tf"
  shows "frame_kept tname t c
           (snd (SCDHelper_create_new_version tname id_value updates new_uid c))
       \<and> frame_kept (tname @ ''_ts'') ts c
           (snd (TimestampVersioningHelper_create_new_version tname id_value updates now new_uid c))
       \<and> frame_kept (tname @ ''_flag'') tf c
           (snd (FlagVersioningHelper_create_new_version tname id_value updates new_uid c))"
  using scd_frame [OF view tabs(1)] ts_frame [OF view tabs(2)] flag_frame [OF view tabs(3)]
  by simp

text \<open>
  Claim C6 fails for the Django helper. \<^verbatim>\<open>create_new_scd_version\<close> sets \<^verbatim>\<open>pk = None\<close> to
  have \<^verbatim>\<open>save()\<close> insert a new row, but for the \<^verbatim>\<open>CharField\<close> key of \<^verbatim>\<open>models.py\<close>
  \<^verbatim>\<open>save()\<close> replaces \<^verbatim>\<open>None\<close> by the empty string. With an \<^verbatim>\<open>update_fn\<close> that only changes
  the status, the first call inserts version 2 of \<^verbatim>\<open>job1\<close> under the uid \<^verbatim>\<open>''\<close>, and the
  second call, which is to create version 3, overwrites that row in place: version 2
  with its status \<^verbatim>\<open>updated\<close> is gone, and no row is inserted.
\<close>

theorem django_second_call_overwrites_first:
  "create_new_scd_version seeded_Job ''job1''
     (\<lambda>j. Inr (set_cell job_columns ''status'' (VStr ''updated'') j))
   = (Inr [VStr [], VStr ''job1'', VInt 2, VStr ''updated'', VInt 100, VStr ''Engineer'',
           VStr ''comp1'', VStr ''cont1''],
      seeded_Job\<lparr>rows := rows seeded_Job @
        [[VStr [], VStr ''job1'', VInt 2, VStr ''updated'', VInt 100, VStr ''Engineer'',
          VStr ''comp1'', VStr ''cont1'']]\<rparr>)
   \<and> create_new_scd_version
       (seeded_Job\<lparr>rows := rows seeded_Job @
          [[VStr [], VStr ''job1'', VInt 2, VStr ''updated'', VInt 100, VStr ''Engineer'',
            VStr ''comp1'', VStr ''cont1'']]\<rparr>)
       ''job1'' (\<lambda>j. Inr (set_cell job_columns ''status'' (VStr ''closed'') j))
   = (Inr [VStr [], VStr ''job1'', VInt 3, VStr ''closed'', VInt 100, VStr ''Engineer'',
           VStr ''comp1'', VStr ''cont1''],
      seeded_Job\<lparr>rows := rows seeded_Job @
        [[VStr [], VStr ''job1'', VInt 3, VStr ''closed'', VInt 100, VStr ''Engineer'',
          VStr ''comp1'', VStr ''cont1'']]\<rparr>)
   \<and> \<not> rows_preserved
       (seeded_Job\<lparr>rows := rows seeded_Job @
          [[VStr [], VStr ''job1'', VInt 2, VStr ''updated'', VInt 100, VStr ''Engineer'',
            VStr ''comp1'', VStr ''cont1'']]\<rparr>)
       (seeded_Job\<lparr>rows := rows seeded_Job @
          [[VStr [], VStr ''job1'', VInt 3, VStr ''closed'', VInt 100, VStr ''Engineer'',
            VStr ''comp1'', VStr ''cont1'']]\<rparr>)"
  by (simp add: create_new_scd_version_def seeded_Job_def job_columns_def cell_def set_cell_def
      objects_get_def and_then_def save_def get_pk_value_on_save_def sql_eq_def violates_def
      rows_preserved_def same_business_fields_def Let_def)

section \<open>One current row per id under the flag strategy\<close>

lemma flag_index:
  "index_of flag_columns ''id'' = Some 0" "index_of flag_columns ''version'' = Some 1"
  "index_of flag_columns ''is_current'' = Some 3"
  by (simp_all add: flag_columns_def eval_nat_numeral)

lemma flag_cells:
  assumes "length r = 9"
  shows "cell flag_columns ''id'' r = r ! 0" and "cell flag_columns ''version'' r = r ! 1"
    and "cell flag_columns ''is_current'' r = r ! 3"
  using assms by (simp_all add: cell_def flag_index)

lemma clear_flag_cells:
  assumes "length r = 9"
  shows "length (clear_flag flag_columns i r) = 9"
    and "cell flag_columns ''id'' (clear_flag flag_columns i r) = cell flag_columns ''id'' r"
    and "cell flag_columns ''version'' (clear_flag flag_columns i r) = cell flag_columns ''version'' r"
    and "cell flag_columns ''is_current'' (clear_flag flag_columns i r) =
           (if cell flag_columns ''id'' r = VStr i \<and> cell flag_columns ''is_current'' r = VBool True
            then VBool False else cell flag_columns ''is_current'' r)"
  using assms by (auto simp: clear_flag_def cell_def set_cell_def flag_index)

lemma filter_map_clear:
  assumes "\<forall>r \<in> set rs. length r = 9"
  shows "filter (\<lambda>r. cell flag_columns ''id'' r = x) (map (clear_flag flag_columns i) rs)
         = map (clear_flag flag_columns i) (filter (\<lambda>r. cell flag_columns ''id'' r = x) rs)"
  using assms by (induction rs) (auto simp: clear_flag_cells)

lemma map_version_clear:
  assumes "\<forall>r \<in> set rs. length r = 9"
  shows "map (cell flag_columns ''version'') (map (clear_flag flag_columns i) rs)
         = map (cell flag_columns ''version'') rs"
  using assms by (induction rs) (auto simp: clear_flag_cells)

lemma find_Some_ex: "\<exists>x \<in> set xs. P x \<Longrightarrow> \<exists>y. find P xs = Some y \<and> y \<in> set xs \<and> P y"
  by (induction xs) auto

lemma flag_columns_facts:
  "distinct flag_columns" "length flag_columns = 9" "''id'' \<in> set flag_columns"
  "''version'' \<in> set flag_columns" "''is_current'' \<in> set flag_columns"
  by (simp_all add: flag_columns_def)

lemma flag_create_result:
  assumes view: "the_view c = Some d" and tab: "d (tname @ ''_flag'') = Some t"
    and wf: "flag_wf t"
    and has: "\<exists>r \<in> set (rows t). cell flag_columns ''id'' r = VStr id_value"
  shows "\<exists>new m. length new = 9 \<and> new ! 0 = VStr id_value \<and> new ! 1 = VInt (m + 1) \<and>
           new ! 3 = VBool True \<and>
           (\<forall>r \<in> set (rows t). cell flag_columns ''id'' r = VStr id_value \<longrightarrow>
               int_of (cell flag_columns ''version'' r) \<le> m) \<and>
           FlagVersioningHelper_create_new_version tname id_value updates new_uid c =
             (if violates (t\<lparr>rows := map (clear_flag flag_columns id_value) (rows t)\<rparr>) new
              then (Inl IntegrityError, c\<lparr>txn := Failed\<rparr>)
              else (Inr None,
                    c\<lparr>committed := d(tname @ ''_flag'' \<mapsto>
                         t\<lparr>rows := map (clear_flag flag_columns id_value) (rows t) @ [new]\<rparr>),
                      txn := Idle\<rparr>))"
proof -
  let ?T = "tname @ ''_flag''"
  let ?cl = "map (clear_flag flag_columns id_value) (rows t)"
  let ?t1 = "t\<lparr>rows := ?cl\<rparr>"
  let ?d1 = "d(?T \<mapsto> ?t1)"
  let ?grp = "filter (\<lambda>r. cell flag_columns ''id'' r = VStr id_value) (rows t)"
  define xs where "xs = map (\<lambda>r. int_of (cell flag_columns ''version'' r)) ?grp"
  define m where "m = Max (set xs)"
  have ct: "columns t = flag_columns" and len: "\<forall>r \<in> set (rows t). length r = 9"
    and ver: "\<forall>r \<in> set (rows t). \<exists>v. cell flag_columns ''version'' r = VInt v"
    using wf by (auto simp: flag_wf_def)
  have u: "update_clear_current ?T id_value d = Inr ?d1"
    using tab ct by (simp add: update_clear_current_def flag_columns_facts)
  have ne: "xs \<noteq> []" using has by (auto simp: xs_def filter_empty_conv)
  have vs: "map (cell flag_columns ''version'') ?grp = map VInt xs"
    using ver by (auto simp: xs_def)
  have g1: "filter (\<lambda>r. cell flag_columns ''id'' r = VStr id_value) ?cl
            = map (clear_flag flag_columns id_value) ?grp"
    using len by (rule filter_map_clear)
  have "map (cell flag_columns ''version'') (map (clear_flag flag_columns id_value) ?grp)
        = map (cell flag_columns ''version'') ?grp"
    using len by (intro map_version_clear) auto
  then have v1: "map (cell flag_columns ''version'')
                   (filter (\<lambda>r. cell flag_columns ''id'' r = VStr id_value) ?cl) = map VInt xs"
    by (simp only: g1 vs)
  have mx: "sql_max (map VInt xs) = VInt m"
    using sql_max_map [where f = VInt and xs = xs] ne by (simp add: m_def)
  have q: "select_max_version ?T id_value ?d1 = Inr (VInt m)"
    using ct by (simp add: select_max_version_def flag_columns_facts v1 mx)
  have "m \<in> set xs" unfolding m_def using ne by (intro Max_in) auto
  then obtain r0 where r0: "r0 \<in> set (rows t)" "cell flag_columns ''id'' r0 = VStr id_value"
      "int_of (cell flag_columns ''version'' r0) = m"
    by (auto simp: xs_def)
  then have r0v: "cell flag_columns ''version'' r0 = VInt m" using ver by fastforce
  have "clear_flag flag_columns id_value r0 \<in> set ?cl" using r0(1) by simp
  moreover have "cell flag_columns ''id'' (clear_flag flag_columns id_value r0) = VStr id_value
      \<and> cell flag_columns ''version'' (clear_flag flag_columns id_value r0) = VInt m"
    using r0 r0v len by (simp add: clear_flag_cells)
  ultimately have ex: "\<exists>x \<in> set ?cl. cell flag_columns ''id'' x = VStr id_value \<and>
      VInt m \<noteq> VNull \<and> cell flag_columns ''version'' x = VInt m"
    by blast
  obtain orig where o: "find (\<lambda>r. cell flag_columns ''id'' r = VStr id_value \<and>
      VInt m \<noteq> VNull \<and> cell flag_columns ''version'' r = VInt m) ?cl = Some orig"
      "orig \<in> set ?cl"
    using find_Some_ex [OF ex] by auto
  have ol: "length orig = 9" using o(2) len by (auto simp: clear_flag_cells)
  have s: "select_version ?T id_value (VInt m) ?d1 = Inr (Some orig)"
    using ct o(1) by (simp add: select_version_def flag_columns_facts)
  let ?new = "[VStr id_value, VInt (m + 1), VStr new_uid, VBool True,
      dict_get updates ''status'' (orig ! 4), dict_get updates ''rate'' (orig ! 5),
      orig ! 6, orig ! 7, orig ! 8]"
  have fv: "flag_values (Some orig) id_value (VInt m) updates new_uid = Inr ?new"
    using ol by (simp add: flag_values_def and_then_def py_subscript_def py_getitem_def)
  have "insert_into ?T (columns ?t1) ?new ?d1 =
          (if violates ?t1 ?new then Inl IntegrityError
           else Inr (?d1(?T \<mapsto> ?t1\<lparr>rows := rows ?t1 @ [?new]\<rparr>)))"
    by (rule insert_into_all_columns) (simp_all add: ct flag_columns_facts)
  then have i: "insert_into ?T flag_columns ?new ?d1 =
          (if violates ?t1 ?new then Inl IntegrityError
           else Inr (d(?T \<mapsto> t\<lparr>rows := ?cl @ [?new]\<rparr>)))"
    by (simp add: ct)
  have le: "\<forall>r \<in> set (rows t). cell flag_columns ''id'' r = VStr id_value \<longrightarrow>
               int_of (cell flag_columns ''version'' r) \<le> m"
    unfolding m_def xs_def by auto
  have call: "FlagVersioningHelper_create_new_version tname id_value updates new_uid c =
             (if violates ?t1 ?new
              then (Inl IntegrityError, c\<lparr>txn := Failed\<rparr>)
              else (Inr None, c\<lparr>committed := d(?T \<mapsto> t\<lparr>rows := ?cl @ [?new]\<rparr>), txn := Idle\<rparr>))"
    using view u q s fv i
    by (simp add: FlagVersioningHelper_create_new_version_def then_do_def execute_update_def
        execute_query_def the_view_def python_def commit_def returns_def)
  show ?thesis
    by (rule exI [where x = ?new], rule exI [where x = m]) (use le call in simp)
qed

lemma count_cleared:
  assumes "\<forall>r \<in> set rs. length r = 9"
  shows "length (filter (\<lambda>r. cell flag_columns ''id'' r = VStr i \<and>
                             cell flag_columns ''is_current'' r = VBool True)
                   (map (clear_flag flag_columns j) rs))
         = (if i = j then 0
            else length (filter (\<lambda>r. cell flag_columns ''id'' r = VStr i \<and>
                                      cell flag_columns ''is_current'' r = VBool True) rs))"
  using assms by (induction rs) (auto simp: clear_flag_cells)

lemma flag_insert_good:
  assumes wf: "flag_wf t" and one: "one_current t"
    and new: "length new = 9" "new ! 0 = VStr j" "new ! 1 = VInt v" "new ! 3 = VBool True"
  shows "flag_good (Some (t\<lparr>rows := map (clear_flag flag_columns j) (rows t) @ [new]\<rparr>))"
proof -
  let ?t' = "t\<lparr>rows := map (clear_flag flag_columns j) (rows t) @ [new]\<rparr>"
  have ct: "columns t = flag_columns" and len: "\<forall>r \<in> set (rows t). length r = 9"
    and ver: "\<forall>r \<in> set (rows t). \<exists>v. cell flag_columns ''version'' r = VInt v"
    using wf by (auto simp: flag_wf_def)
  have nc: "cell flag_columns ''id'' new = VStr j" "cell flag_columns ''version'' new = VInt v"
      "cell flag_columns ''is_current'' new = VBool True"
    using new by (simp_all add: flag_cells)
  have wf': "flag_wf ?t'"
    using ct len ver new(1) nc(2) by (auto simp: flag_wf_def clear_flag_cells)
  have cnt: "current_count ?t' i = (if i = j then 1 else current_count t i)" for i
    using count_cleared [OF len, of i j] nc by (simp add: current_count_def ct)
  have "current_count ?t' i = 1" if r: "r \<in> set (rows ?t')" and i: "cell flag_columns ''id'' r = VStr i"
    for r i
  proof (cases "i = j")
    case True
    then show ?thesis by (simp add: cnt)
  next
    case False
    with r i nc(1) obtain r0 where r0: "r0 \<in> set (rows t)" "r = clear_flag flag_columns j r0"
      by auto
    then have "cell flag_columns ''id'' r0 = VStr i" using i len by (simp add: clear_flag_cells)
    with r0(1) one have "current_count t i = 1" by (auto simp: one_current_def ct)
    with False show ?thesis by (simp add: cnt)
  qed
  then have "one_current ?t'" by (simp add: one_current_def ct)
  with wf' show ?thesis by (simp add: flag_good_def)
qed

lemma flag_step_inv:
  assumes inv: "flag_inv tname c"
  shows "flag_inv tname
           (snd (FlagVersioningHelper_create_new_version tname id_value updates new_uid c))"
proof (cases "the_view c")
  case None
  then have "FlagVersioningHelper_create_new_version tname id_value updates new_uid c
             = (Inl InFailedSqlTransaction, c)"
    by (simp add: FlagVersioningHelper_create_new_version_def then_do_def execute_update_def)
  with inv show ?thesis by simp
next
  case (Some d)
  let ?T = "tname @ ''_flag''"
  have com: "flag_good (committed c ?T)" using inv by (simp add: flag_inv_def)
  have "flag_good (d ?T)"
    using inv Some by (auto simp: flag_inv_def the_view_def split: txn.splits)
  then obtain t where t: "d ?T = Some t" "flag_wf t" "one_current t"
    by (auto simp: flag_good_def split: option.splits)
  have ct: "columns t = flag_columns" using t(2) by (simp add: flag_wf_def)
  show ?thesis
  proof (cases "\<exists>r \<in> set (rows t). cell flag_columns ''id'' r = VStr id_value")
    case True
    from flag_create_result [OF Some t(1,2) True, of updates new_uid]
    obtain new m where new: "length new = 9" "new ! 0 = VStr id_value" "new ! 1 = VInt (m + 1)"
        "new ! 3 = VBool True"
      and call: "FlagVersioningHelper_create_new_version tname id_value updates new_uid c =
             (if violates (t\<lparr>rows := map (clear_flag flag_columns id_value) (rows t)\<rparr>) new
              then (Inl IntegrityError, c\<lparr>txn := Failed\<rparr>)
              else (Inr None,
                    c\<lparr>committed := d(?T \<mapsto>
                         t\<lparr>rows := map (clear_flag flag_columns id_value) (rows t) @ [new]\<rparr>),
                      txn := Idle\<rparr>))"
      by blast
    have "flag_good (Some (t\<lparr>rows := map (clear_flag flag_columns id_value) (rows t) @ [new]\<rparr>))"
      using t(2,3) new by (rule flag_insert_good)
    with call com show ?thesis by (simp add: flag_inv_def)
  next
    case False
    then have no: "\<forall>r \<in> set (rows t). cell (columns t) ''id'' r \<noteq> VStr id_value"
      by (simp add: ct)
    have c1: "''id'' \<in> set (columns t)" and c2: "''version'' \<in> set (columns t)"
      and c3: "''is_current'' \<in> set (columns t)"
      by (simp_all add: ct flag_columns_facts)
    have "FlagVersioningHelper_create_new_version tname id_value updates new_uid c
            = (Inl TypeError, c\<lparr>txn := Active d\<rparr>)"
      using flag_create_no_row [OF Some t(1) c1 c2 c3 no] by simp
    with com t show ?thesis by (simp add: flag_inv_def flag_good_def)
  qed
qed

lemma flag_run_inv: "flag_inv tname c \<Longrightarrow> flag_inv tname (flag_run tname calls c)"
proof (induction calls arbitrary: c)
  case Nil
  then show ?case by simp
next
  case (Cons call calls)
  obtain id_value updates new_uid where call: "call = (id_value, updates, new_uid)"
    by (cases call)
  from Cons.prems
  have "flag_inv tname
          (snd (FlagVersioningHelper_create_new_version tname id_value updates new_uid c))"
    by (rule flag_step_inv)
  then show ?case using Cons.IH by (simp add: call)
qed

text \<open>
  Claim C3. Let the flag table be as \<^verbatim>\<open>setup_database\<close> declares it and have exactly one
  current row for every id that has a row (as after \<^verbatim>\<open>seed_data\<close>), in the committed
  store and in the open transaction. Then this still holds after any sequence of calls
  of \<^verbatim>\<open>FlagVersioningHelper.create_new_version\<close>, whatever their arguments and whether
  they succeed or raise. A call for an id that has a row either is refused by a key (the
  transaction is aborted, nothing is committed) or commits in one step the old rows,
  with \<^verbatim>\<open>is_current\<close> cleared on the rows of the id, followed by the new row, whose
  \<^verbatim>\<open>is_current\<close> is true.
\<close>

theorem flag_exactly_one_current:
  assumes inv: "flag_inv tname c"
  shows "flag_inv tname (flag_run tname calls c)
       \<and> (\<forall>d t. the_view c = Some d \<longrightarrow> d (tname @ ''_flag'') = Some t \<longrightarrow>
              (\<exists>r \<in> set (rows t). cell flag_columns ''id'' r = VStr id_value) \<longrightarrow>
              (\<exists>new. cell flag_columns ''id'' new = VStr id_value \<and>
                 cell flag_columns ''is_current'' new = VBool True \<and>
                 (\<forall>r \<in> set (rows t). cell flag_columns ''id'' r = VStr id_value \<longrightarrow>
                    cell flag_columns ''is_current'' (clear_flag flag_columns id_value r)
                      \<noteq> VBool True) \<and>
                 FlagVersioningHelper_create_new_version tname id_value updates new_uid c =
                   (if violates (t\<lparr>rows := map (clear_flag flag_columns id_value) (rows t)\<rparr>) new
                    then (Inl IntegrityError, c\<lparr>txn := Failed\<rparr>)
                    else (Inr None,
                          c\<lparr>committed := d(tname @ ''_flag'' \<mapsto>
                               t\<lparr>rows := map (clear_flag flag_columns id_value) (rows t) @ [new]\<rparr>),
                            txn := Idle\<rparr>))))"
proof -
  have run: "flag_inv tname (flag_run tname calls c)"
    using inv by (rule flag_run_inv)
  have step: "\<exists>new. cell flag_columns ''id'' new = VStr id_value \<and>
                 cell flag_columns ''is_current'' new = VBool True \<and>
                 (\<forall>r \<in> set (rows t). cell flag_columns ''id'' r = VStr id_value \<longrightarrow>
                    cell flag_columns ''is_current'' (clear_flag flag_columns id_value r)
                      \<noteq> VBool True) \<and>
                 FlagVersioningHelper_create_new_version tname id_value updates new_uid c =
                   (if violates (t\<lparr>rows := map (clear_flag flag_columns id_value) (rows t)\<rparr>) new
                    then (Inl IntegrityError, c\<lparr>txn := Failed\<rparr>)
                    else (Inr None,
                          c\<lparr>committed := d(tname @ ''_flag'' \<mapsto>
                               t\<lparr>rows := map (clear_flag flag_columns id_value) (rows t) @ [new]\<rparr>),
                            txn := Idle\<rparr>))"
    if v: "the_view c = Some d" and t: "d (tname @ ''_flag'') = Some t"
      and has: "\<exists>r \<in> set (rows t). cell flag_columns ''id'' r = VStr id_value" for d t
  proof -
    have "flag_good (d (tname @ ''_flag''))"
      using inv v by (auto simp: flag_inv_def the_view_def split: txn.splits)
    then have wf: "flag_wf t" using t by (simp add: flag_good_def)
    then have len: "\<forall>r \<in> set (rows t). length r = 9" by (simp add: flag_wf_def)
    from flag_create_result [OF v t wf has, of updates new_uid]
    obtain new m where new: "length new = 9" "new ! 0 = VStr id_value" "new ! 3 = VBool True"
      and call: "FlagVersioningHelper_create_new_version tname id_value updates new_uid c =
             (if violates (t\<lparr>rows := map (clear_flag flag_columns id_value) (rows t)\<rparr>) new
              then (Inl IntegrityError, c\<lparr>txn := Failed\<rparr>)
              else (Inr None,
                    c\<lparr>committed := d(tname @ ''_flag'' \<mapsto>
                         t\<lparr>rows := map (clear_flag flag_columns id_value) (rows t) @ [new]\<rparr>),
                      txn := Idle\<rparr>))"
      by blast
    have "cell flag_columns ''id'' new = VStr id_value"
      and "cell flag_columns ''is_current'' new = VBool True"
      using new by (simp_all add: flag_cells)
    moreover have "\<forall>r \<in> set (rows t). cell flag_columns ''id'' r = VStr id_value \<longrightarrow>
        cell flag_columns ''is_current'' (clear_flag flag_columns id_value r) \<noteq> VBool True"
      using len by (simp add: clear_flag_cells)
    ultimately show ?thesis using call by blast
  qed
  from run step show ?thesis by blast
qed

theorem flag_exactly_one_current_witness:
  "flag_inv ''jobs''
     (flag_run ''jobs''
        [(''job1'', [(''status'', VStr ''updated''), (''rate'', VInt 150)], ''n2''),
         (''job7'', [], ''n7''),
         (''job1'', [(''status'', VStr ''closed'')], ''n3'')]
        seeded_conn)
   \<and> map_option rows (committed
        (flag_run ''jobs''
           [(''job1'', [(''status'', VStr ''updated''), (''rate'', VInt 150)], ''n2''),
            (''job7'', [], ''n7''),
            (''job1'', [(''status'', VStr ''closed'')], ''n3'')]
           seeded_conn) ''jobs_flag'')
     = Some [[VStr ''job0'', VInt 1, VStr ''c0'', VBool True, VStr ''active'', VInt 100,
              VStr ''Engineer'', VStr ''comp1'', VStr ''cont1''],
             [VStr ''job1'', VInt 1, VStr ''c1'', VBool False, VStr ''active'', VInt 100,
              VStr ''Engineer'', VStr ''comp1'', VStr ''cont1''],
             [VStr ''job1'', VInt 2, VStr ''n2'', VBool False, VStr ''updated'', VInt 150,
              VStr ''Engineer'', VStr ''comp1'', VStr ''cont1''],
             [VStr ''job1'', VInt 3, VStr ''n3'', VBool True, VStr ''closed'', VInt 150,
              VStr ''Engineer'', VStr ''comp1'', VStr ''cont1'']]"
proof -
  have i: "flag_inv ''jobs'' seeded_conn"
    by (simp add: flag_inv_def seeded_conn_def seeded_db_def flag_good_def flag_wf_def
        one_current_def current_count_def seeded_jobs_flag_def flag_columns_def cell_def)
  have r: "map_option rows (committed
        (flag_run ''jobs''
           [(''job1'', [(''status'', VStr ''updated''), (''rate'', VInt 150)], ''n2''),
            (''job7'', [], ''n7''),
            (''job1'', [(''status'', VStr ''closed'')], ''n3'')]
           seeded_conn) ''jobs_flag'')
     = Some [[VStr ''job0'', VInt 1, VStr ''c0'', VBool True, VStr ''active'', VInt 100,
              VStr ''Engineer'', VStr ''comp1'', VStr ''cont1''],
             [VStr ''job1'', VInt 1, VStr ''c1'', VBool False, VStr ''active'', VInt 100,
              VStr ''Engineer'', VStr ''comp1'', VStr ''cont1''],
             [VStr ''job1'', VInt 2, VStr ''n2'', VBool False, VStr ''updated'', VInt 150,
              VStr ''Engineer'', VStr ''comp1'', VStr ''cont1''],
             [VStr ''job1'', VInt 3, VStr ''n3'', VBool True, VStr ''closed'', VInt 150,
              VStr ''Engineer'', VStr ''comp1'', VStr ''cont1'']]"
    by (simp add: FlagVersioningHelper_create_new_version_def then_do_def execute_update_def
        execute_query_def the_view_def python_def commit_def returns_def seeded_conn_def
        seeded_db_def seeded_jobs_flag_def flag_columns_def update_clear_current_def
        clear_flag_def set_cell_def cell_def select_max_version_def select_version_def
        flag_values_def and_then_def py_subscript_def py_getitem_def dict_get_def
        insert_into_def violates_def Let_def)
  have a: "flag_inv ''jobs''
     (flag_run ''jobs''
        [(''job1'', [(''status'', VStr ''updated''), (''rate'', VInt 150)], ''n2''),
         (''job7'', [], ''n7''),
         (''job1'', [(''status'', VStr ''closed'')], ''n3'')]
        seeded_conn)"
    using flag_exactly_one_current [OF i] by (rule conjunct1)
  show ?thesis by (rule conjI [OF a r])
qed

section \<open>Discriminators stay strictly increasing\<close>

lemma increasing_snoc:
  "increasing (vs @ [x]) \<longleftrightarrow> increasing vs \<and> (\<forall>y \<in> set vs. desc_before x y)"
  by (auto simp: increasing_def sorted_wrt_append)

lemma discriminators_append:
  "discriminators col (t\<lparr>rows := rows t @ [new]\<rparr>) i =
     discriminators col t i @
       (if cell (columns t) ''id'' new = VStr i then [cell (columns t) col new] else [])"
  by (simp add: discriminators_def)

lemma increasing_insert:
  assumes "\<forall>i. increasing (discriminators col t i)" and "cell (columns t) ''id'' new = VStr j"
    and "\<forall>r \<in> set (rows t). cell (columns t) ''id'' r = VStr j \<longrightarrow>
           desc_before (cell (columns t) col new) (cell (columns t) col r)"
  shows "\<forall>i. increasing (discriminators col (t\<lparr>rows := rows t @ [new]\<rparr>) i)"
proof
  fix i
  show "increasing (discriminators col (t\<lparr>rows := rows t @ [new]\<rparr>) i)"
  proof (cases "i = j")
    case True
    have "\<forall>y \<in> set (discriminators col t j). desc_before (cell (columns t) col new) y"
      using assms(3) by (auto simp: discriminators_def)
    with assms(1,2) True show ?thesis
      by (simp add: discriminators_append increasing_snoc)
  next
    case False
    with assms(1,2) show ?thesis by (simp add: discriminators_append)
  qed
qed

lemma last_greatest:
  assumes "sorted_wrt R xs" and "x \<in> set xs" and "x \<noteq> last xs"
  shows "R x (last xs)"
proof -
  from assms(2) have ne: "xs \<noteq> []" by auto
  then have xs: "xs = butlast xs @ [last xs]" by simp
  with assms(2,3) have "x \<in> set (butlast xs)"
    by (metis Un_iff empty_iff empty_set set_ConsD set_append)
  moreover from assms(1) xs have "\<forall>y \<in> set (butlast xs). R y (last xs)"
    by (metis sorted_wrt_append list.set_intros(1))
  ultimately show ?thesis by blast
qed

lemma cell_map_columns: "col \<in> set cols \<Longrightarrow> cell cols col (map f cols) = f col"
proof -
  assume "col \<in> set cols"
  then obtain i where i: "index_of cols col = Some i" using index_of_mem by blast
  then have "i < length cols" and "cols ! i = col" using index_of_Some by auto
  with i show ?thesis by (simp add: cell_def)
qed

lemma derived_row_cells:
  assumes "''id'' \<in> set cols" and "''version'' \<in> set cols"
    and "''id'' \<notin> fst ` set updates" and "''version'' \<notin> fst ` set updates"
  shows "cell cols ''id'' (derived_row cols cur updates new_uid v) = cell cols ''id'' cur"
    and "cell cols ''version'' (derived_row cols cur updates new_uid v) = VInt (v + 1)"
proof -
  have "map_of (rev updates) ''id'' = None" and "map_of (rev updates) ''version'' = None"
    using assms(3,4) by (simp_all add: map_of_eq_None_iff)
  then show "cell cols ''id'' (derived_row cols cur updates new_uid v) = cell cols ''id'' cur"
    and "cell cols ''version'' (derived_row cols cur updates new_uid v) = VInt (v + 1)"
    using assms(1,2) by (simp_all add: derived_row_def cell_map_columns)
qed

lemma scd_create_no_row:
  assumes "the_view c = Some d" and "d tname = Some t"
    and "''id'' \<in> set (columns t)" and "''version'' \<in> set (columns t)"
    and "\<forall>r \<in> set (rows t). cell (columns t) ''id'' r \<noteq> VStr id_value"
  shows "SCDHelper_create_new_version tname id_value updates new_uid c
           = (Inl (Exception (''No record found with id '' @ id_value)), c\<lparr>txn := Active d\<rparr>)"
proof -
  have "filter (\<lambda>r. cell (columns t) ''id'' r = VStr id_value) (rows t) = []"
    using assms(5) by (intro filter_none) auto
  then have "select_latest tname ''version'' id_value d = Inr None"
    using assms(2-4) by (simp add: select_latest_def)
  then show ?thesis
    using assms(1)
    by (simp add: SCDHelper_create_new_version_def then_do_def execute_query_def raise_def)
qed

lemma tname_neq: "tname \<noteq> tname @ ''_ts''" "tname \<noteq> tname @ ''_flag''"
  "tname @ ''_ts'' \<noteq> tname @ ''_flag''"
  by simp_all

lemma mono_db_update:
  assumes "mono_db tname d"
  shows "mono_good ''version'' counter_wf (Some t') \<Longrightarrow> mono_db tname (d(tname \<mapsto> t'))"
    and "mono_good ''created_at'' ts_wf (Some t') \<Longrightarrow> mono_db tname (d(tname @ ''_ts'' \<mapsto> t'))"
    and "mono_good ''version'' flag_wf (Some t') \<Longrightarrow> mono_db tname (d(tname @ ''_flag'' \<mapsto> t'))"
  using assms by (simp_all add: mono_db_def)

lemma mono_inv_view:
  assumes "mono_inv tname c" and "the_view c = Some d"
  shows "mono_db tname d" and "mono_db tname (committed c)"
  using assms by (auto simp: mono_inv_def the_view_def split: txn.splits)

lemma mono_inv_outcomes:
  assumes "mono_inv tname c" and "the_view c = Some d"
  shows "mono_inv tname (c\<lparr>txn := Failed\<rparr>)" and "mono_inv tname (c\<lparr>txn := Active d\<rparr>)"
    and "mono_db tname d' \<Longrightarrow> mono_inv tname (c\<lparr>committed := d', txn := Idle\<rparr>)"
  using assms by (auto simp: mono_inv_def the_view_def split: txn.splits)

lemma counter_step_inv:
  assumes inv: "mono_inv tname c"
    and ok: "''id'' \<notin> fst ` set updates" "''version'' \<notin> fst ` set updates"
  shows "mono_inv tname (snd (SCDHelper_create_new_version tname id_value updates new_uid c))"
proof (cases "the_view c")
  case None
  then have "SCDHelper_create_new_version tname id_value updates new_uid c
             = (Inl InFailedSqlTransaction, c)"
    by (simp add: SCDHelper_create_new_version_def then_do_def execute_query_def)
  with inv show ?thesis by simp
next
  case (Some d)
  have db: "mono_db tname d" using inv Some by (rule mono_inv_view)
  then obtain t where t: "d tname = Some t" "counter_wf t"
      "\<forall>i. increasing (discriminators ''version'' t i)"
    by (auto simp: mono_db_def mono_good_def split: option.splits)
  let ?id = "cell (columns t) ''id''" and ?ver = "cell (columns t) ''version''"
  have cols: "distinct (columns t)" "''id'' \<in> set (columns t)" "''version'' \<in> set (columns t)"
      "''uid'' \<in> set (columns t)"
    and len: "\<forall>r \<in> set (rows t). length r = length (columns t)"
    and ver: "\<forall>r \<in> set (rows t). \<exists>v. ?ver r = VInt v"
    using t(2) by (auto simp: counter_wf_def)
  let ?grp = "filter (\<lambda>r. ?id r = VStr id_value) (rows t)"
  show ?thesis
  proof (cases "?grp = []")
    case True
    then have "\<forall>r \<in> set (rows t). ?id r \<noteq> VStr id_value"
      by (simp add: filter_empty_conv)
    then have "SCDHelper_create_new_version tname id_value updates new_uid c
           = (Inl (Exception (''No record found with id '' @ id_value)), c\<lparr>txn := Active d\<rparr>)"
      using Some t(1) cols(2,3) by (intro scd_create_no_row) auto
    then show ?thesis using mono_inv_outcomes(2) [OF inv Some] by simp
  next
    case False
    define latest where "latest = last ?grp"
    have lin: "latest \<in> set ?grp" unfolding latest_def using False by (rule last_in_set)
    then have l: "latest \<in> set (rows t)" "?id latest = VStr id_value" by auto
    obtain v where v: "?ver latest = VInt v" using ver l(1) by blast
    have srt: "sorted_wrt (\<lambda>a b. desc_before (?ver b) (?ver a)) ?grp"
      using t(3) [rule_format, of id_value]
      by (simp add: increasing_def discriminators_def sorted_wrt_map)
    have others: "\<forall>r \<in> set (rows t). ?id r = VStr id_value \<longrightarrow> r \<noteq> latest \<longrightarrow>
        (\<exists>w. ?ver r = VInt w \<and> w < v)"
    proof (intro ballI impI)
      fix r
      assume r: "r \<in> set (rows t)" "?id r = VStr id_value" "r \<noteq> latest"
      then have rg: "r \<in> set ?grp" by simp
      have "desc_before (?ver latest) (?ver r)"
        using last_greatest [OF srt rg] r(3) by (simp add: latest_def)
      moreover obtain w where "?ver r = VInt w" using ver r(1) by blast
      ultimately show "\<exists>w. ?ver r = VInt w \<and> w < v" using v by simp
    qed
    let ?new = "derived_row (columns t) latest updates new_uid v"
    have call: "SCDHelper_create_new_version tname id_value updates new_uid c =
       (if violates t ?new then (Inl IntegrityError, c\<lparr>txn := Failed\<rparr>)
        else (Inr None, c\<lparr>committed := d(tname \<mapsto> t\<lparr>rows := rows t @ [?new]\<rparr>), txn := Idle\<rparr>))"
      using Some t(1) cols l(1) _ l(2) v others
      by (rule scd_create_result) (use len l(1) in blast)
    have nid: "?id ?new = VStr id_value" and nver: "?ver ?new = VInt (v + 1)"
      using derived_row_cells [OF cols(2,3) ok] l(2) by simp_all
    have gt: "\<forall>r \<in> set (rows t). ?id r = VStr id_value \<longrightarrow> desc_before (?ver ?new) (?ver r)"
    proof (intro ballI impI)
      fix r
      assume r: "r \<in> set (rows t)" "?id r = VStr id_value"
      show "desc_before (?ver ?new) (?ver r)"
      proof (cases "r = latest")
        case True
        then show ?thesis using v nver by simp
      next
        case False
        with others r obtain w where "?ver r = VInt w" "w < v" by blast
        then show ?thesis using nver by simp
      qed
    qed
    have inc: "\<forall>i. increasing (discriminators ''version'' (t\<lparr>rows := rows t @ [?new]\<rparr>) i)"
      using t(3) nid gt by (rule increasing_insert)
    have "counter_wf (t\<lparr>rows := rows t @ [?new]\<rparr>)"
      using t(2) nver by (auto simp: counter_wf_def derived_row_length)
    with inc have "mono_good ''version'' counter_wf (Some (t\<lparr>rows := rows t @ [?new]\<rparr>))"
      by (simp add: mono_good_def)
    then have "mono_db tname (d(tname \<mapsto> t\<lparr>rows := rows t @ [?new]\<rparr>))"
      using db by (intro mono_db_update(1))
    then show ?thesis
      using call mono_inv_outcomes(1,3) [OF inv Some] by simp
  qed
qed

lemma ts_columns_facts:
  "distinct ts_columns" "length ts_columns = 8" "''id'' \<in> set ts_columns"
  "''created_at'' \<in> set ts_columns"
  by (simp_all add: ts_columns_def)

lemma ts_index:
  "index_of ts_columns ''id'' = Some 0" "index_of ts_columns ''created_at'' = Some 1"
  by (simp_all add: ts_columns_def)

lemma ts_cells:
  assumes "length r = 8"
  shows "cell ts_columns ''id'' r = r ! 0" and "cell ts_columns ''created_at'' r = r ! 1"
  using assms by (simp_all add: cell_def ts_index)

lemma ts_create_no_row:
  assumes "the_view c = Some d" and "d (tname @ ''_ts'') = Some t"
    and "''id'' \<in> set (columns t)" and "''created_at'' \<in> set (columns t)"
    and "\<forall>r \<in> set (rows t). cell (columns t) ''id'' r \<noteq> VStr id_value"
  shows "TimestampVersioningHelper_create_new_version tname id_value updates now new_uid c
           = (Inl (Exception (''No record found with id '' @ id_value)), c\<lparr>txn := Active d\<rparr>)"
proof -
  have "filter (\<lambda>r. cell (columns t) ''id'' r = VStr id_value) (rows t) = []"
    using assms(5) by (intro filter_none) auto
  then have "select_latest (tname @ ''_ts'') ''created_at'' id_value d = Inr None"
    using assms(2-4) by (simp add: select_latest_def)
  then show ?thesis
    using assms(1)
    by (simp add: TimestampVersioningHelper_create_new_version_def then_do_def execute_query_def
        raise_def)
qed

lemma ts_create_result:
  assumes view: "the_view c = Some d" and tab: "d (tname @ ''_ts'') = Some t"
    and wf: "ts_wf t"
    and has: "\<exists>r \<in> set (rows t). cell ts_columns ''id'' r = VStr id_value"
  shows "\<exists>new. length new = 8 \<and> new ! 0 = VStr id_value \<and> new ! 1 = VTime now \<and>
           TimestampVersioningHelper_create_new_version tname id_value updates now new_uid c =
             (if violates t new
              then (Inl IntegrityError, c\<lparr>txn := Failed\<rparr>)
              else (Inr None,
                    c\<lparr>committed := d(tname @ ''_ts'' \<mapsto> t\<lparr>rows := rows t @ [new]\<rparr>),
                      txn := Idle\<rparr>))"
proof -
  let ?T = "tname @ ''_ts''"
  let ?grp = "filter (\<lambda>r. cell ts_columns ''id'' r = VStr id_value) (rows t)"
  have ct: "columns t = ts_columns" and len: "\<forall>r \<in> set (rows t). length r = 8"
    using wf by (auto simp: ts_wf_def)
  have "?grp \<noteq> []" using has by (auto simp: filter_empty_conv)
  then obtain l where l: "order_desc_first (cell ts_columns ''created_at'') ?grp = Some l"
    using order_desc_first_Nil_iff [of "cell ts_columns ''created_at''" ?grp] by auto
  then have "l \<in> set ?grp" by (rule order_desc_first_mem)
  then have ll: "length l = 8" using len by auto
  then have ne: "l \<noteq> []" by auto
  have q: "select_latest ?T ''created_at'' id_value d = Inr (Some l)"
    using tab ct l by (simp add: select_latest_def ts_columns_facts)
  let ?new = "[VStr id_value, VTime now, VStr new_uid, dict_get updates ''status'' (l ! 3),
      dict_get updates ''rate'' (l ! 4), l ! 5, l ! 6, l ! 7]"
  have tv: "ts_values l id_value updates now new_uid = Inr ?new"
    using ll by (simp add: ts_values_def and_then_def py_getitem_def)
  have "insert_into ?T (columns t) ?new d =
          (if violates t ?new then Inl IntegrityError
           else Inr (d(?T \<mapsto> t\<lparr>rows := rows t @ [?new]\<rparr>)))"
    using tab by (rule insert_into_all_columns) (simp_all add: ct ts_columns_facts)
  then have i: "insert_into ?T ts_columns ?new d =
          (if violates t ?new then Inl IntegrityError
           else Inr (d(?T \<mapsto> t\<lparr>rows := rows t @ [?new]\<rparr>)))"
    by (simp add: ct)
  have call: "TimestampVersioningHelper_create_new_version tname id_value updates now new_uid c =
             (if violates t ?new
              then (Inl IntegrityError, c\<lparr>txn := Failed\<rparr>)
              else (Inr None,
                    c\<lparr>committed := d(?T \<mapsto> t\<lparr>rows := rows t @ [?new]\<rparr>), txn := Idle\<rparr>))"
    using view q ne tv i
    by (simp add: TimestampVersioningHelper_create_new_version_def then_do_def execute_query_def
        execute_update_def the_view_def python_def commit_def returns_def)
  show ?thesis
    by (rule exI [where x = ?new]) (use call in simp)
qed

lemma ts_step_inv:
  assumes inv: "mono_inv tname c"
    and ok: "call_ok tname (Timestamp_call id_value updates now new_uid) c"
  shows "mono_inv tname
           (snd (TimestampVersioningHelper_create_new_version tname id_value updates now new_uid c))"
proof (cases "the_view c")
  case None
  then have "TimestampVersioningHelper_create_new_version tname id_value updates now new_uid c
             = (Inl InFailedSqlTransaction, c)"
    by (simp add: TimestampVersioningHelper_create_new_version_def then_do_def execute_query_def)
  with inv show ?thesis by simp
next
  case (Some d)
  let ?T = "tname @ ''_ts''"
  have db: "mono_db tname d" using inv Some by (rule mono_inv_view)
  then obtain t where t: "d ?T = Some t" "ts_wf t"
      "\<forall>i. increasing (discriminators ''created_at'' t i)"
    by (auto simp: mono_db_def mono_good_def split: option.splits)
  have ct: "columns t = ts_columns" and len: "\<forall>r \<in> set (rows t). length r = 8"
    and typed: "\<forall>r \<in> set (rows t). \<exists>v. cell ts_columns ''created_at'' r = VTime v"
    using t(2) by (auto simp: ts_wf_def)
  have later: "\<forall>r \<in> set (rows t). cell ts_columns ''id'' r = VStr id_value \<longrightarrow>
      int_of (cell ts_columns ''created_at'' r) < now"
    using ok Some t(1) by (simp add: ct)
  show ?thesis
  proof (cases "\<exists>r \<in> set (rows t). cell ts_columns ''id'' r = VStr id_value")
    case False
    then have "\<forall>r \<in> set (rows t). cell (columns t) ''id'' r \<noteq> VStr id_value" by (simp add: ct)
    then have "TimestampVersioningHelper_create_new_version tname id_value updates now new_uid c
           = (Inl (Exception (''No record found with id '' @ id_value)), c\<lparr>txn := Active d\<rparr>)"
      using Some t(1) by (intro ts_create_no_row) (auto simp: ct ts_columns_facts)
    then show ?thesis using mono_inv_outcomes(2) [OF inv Some] by simp
  next
    case True
    from ts_create_result [OF Some t(1,2) True, of now updates new_uid]
    obtain new where new: "length new = 8" "new ! 0 = VStr id_value" "new ! 1 = VTime now"
      and call: "TimestampVersioningHelper_create_new_version tname id_value updates now new_uid c =
             (if violates t new
              then (Inl IntegrityError, c\<lparr>txn := Failed\<rparr>)
              else (Inr None,
                    c\<lparr>committed := d(?T \<mapsto> t\<lparr>rows := rows t @ [new]\<rparr>), txn := Idle\<rparr>))"
      by blast
    have nc: "cell (columns t) ''id'' new = VStr id_value"
        "cell (columns t) ''created_at'' new = VTime now"
      using new by (simp_all add: ct ts_cells)
    have gt: "\<forall>r \<in> set (rows t). cell (columns t) ''id'' r = VStr id_value \<longrightarrow>
        desc_before (cell (columns t) ''created_at'' new) (cell (columns t) ''created_at'' r)"
    proof (intro ballI impI)
      fix r
      assume r: "r \<in> set (rows t)" "cell (columns t) ''id'' r = VStr id_value"
      then obtain v where v: "cell ts_columns ''created_at'' r = VTime v" using typed by blast
      with later r have "v < now" by (auto simp: ct)
      with v nc(2) show "desc_before (cell (columns t) ''created_at'' new)
                           (cell (columns t) ''created_at'' r)"
        by (simp add: ct)
    qed
    have inc: "\<forall>i. increasing (discriminators ''created_at'' (t\<lparr>rows := rows t @ [new]\<rparr>) i)"
      using t(3) nc(1) gt by (rule increasing_insert)
    have "ts_wf (t\<lparr>rows := rows t @ [new]\<rparr>)"
      using t(2) new nc(2) by (auto simp: ts_wf_def)
    with inc have "mono_good ''created_at'' ts_wf (Some (t\<lparr>rows := rows t @ [new]\<rparr>))"
      by (simp add: mono_good_def)
    then have "mono_db tname (d(?T \<mapsto> t\<lparr>rows := rows t @ [new]\<rparr>))"
      using db by (intro mono_db_update(2))
    then show ?thesis
      using call mono_inv_outcomes(1,3) [OF inv Some] by simp
  qed
qed

lemma discriminators_cleared:
  assumes "columns t = flag_columns" and "\<forall>r \<in> set (rows t). length r = 9"
  shows "discriminators ''version'' (t\<lparr>rows := map (clear_flag flag_columns j) (rows t)\<rparr>) i
         = discriminators ''version'' t i"
proof -
  have "\<forall>r \<in> set (filter (\<lambda>r. cell flag_columns ''id'' r = VStr i) (rows t)). length r = 9"
    using assms(2) by simp
  then have "map (cell flag_columns ''version'')
               (map (clear_flag flag_columns j)
                  (filter (\<lambda>r. cell flag_columns ''id'' r = VStr i) (rows t)))
             = map (cell flag_columns ''version'')
                 (filter (\<lambda>r. cell flag_columns ''id'' r = VStr i) (rows t))"
    by (rule map_version_clear)
  then show ?thesis
    using assms by (simp add: discriminators_def filter_map_clear)
qed

lemma flag_step_mono:
  assumes inv: "mono_inv tname c"
  shows "mono_inv tname
           (snd (FlagVersioningHelper_create_new_version tname id_value updates new_uid c))"
proof (cases "the_view c")
  case None
  then have "FlagVersioningHelper_create_new_version tname id_value updates new_uid c
             = (Inl InFailedSqlTransaction, c)"
    by (simp add: FlagVersioningHelper_create_new_version_def then_do_def execute_update_def)
  with inv show ?thesis by simp
next
  case (Some d)
  let ?T = "tname @ ''_flag''"
  have db: "mono_db tname d" using inv Some by (rule mono_inv_view)
  then obtain t where t: "d ?T = Some t" "flag_wf t"
      "\<forall>i. increasing (discriminators ''version'' t i)"
    by (auto simp: mono_db_def mono_good_def split: option.splits)
  have ct: "columns t = flag_columns" and len: "\<forall>r \<in> set (rows t). length r = 9"
    and ver: "\<forall>r \<in> set (rows t). \<exists>v. cell flag_columns ''version'' r = VInt v"
    using t(2) by (auto simp: flag_wf_def)
  show ?thesis
  proof (cases "\<exists>r \<in> set (rows t). cell flag_columns ''id'' r = VStr id_value")
    case False
    then have no: "\<forall>r \<in> set (rows t). cell (columns t) ''id'' r \<noteq> VStr id_value"
      by (simp add: ct)
    have c1: "''id'' \<in> set (columns t)" and c2: "''version'' \<in> set (columns t)"
      and c3: "''is_current'' \<in> set (columns t)"
      by (simp_all add: ct flag_columns_facts)
    have "FlagVersioningHelper_create_new_version tname id_value updates new_uid c
            = (Inl TypeError, c\<lparr>txn := Active d\<rparr>)"
      using flag_create_no_row [OF Some t(1) c1 c2 c3 no] by simp
    then show ?thesis using mono_inv_outcomes(2) [OF inv Some] by simp
  next
    case True
    let ?t1 = "t\<lparr>rows := map (clear_flag flag_columns id_value) (rows t)\<rparr>"
    from flag_create_result [OF Some t(1,2) True, of updates new_uid]
    obtain new m where new: "length new = 9" "new ! 0 = VStr id_value" "new ! 1 = VInt (m + 1)"
      and le: "\<forall>r \<in> set (rows t). cell flag_columns ''id'' r = VStr id_value \<longrightarrow>
               int_of (cell flag_columns ''version'' r) \<le> m"
      and call: "FlagVersioningHelper_create_new_version tname id_value updates new_uid c =
             (if violates ?t1 new
              then (Inl IntegrityError, c\<lparr>txn := Failed\<rparr>)
              else (Inr None,
                    c\<lparr>committed := d(?T \<mapsto>
                         t\<lparr>rows := map (clear_flag flag_columns id_value) (rows t) @ [new]\<rparr>),
                      txn := Idle\<rparr>))"
      by blast
    have nc: "cell (columns ?t1) ''id'' new = VStr id_value"
        "cell (columns ?t1) ''version'' new = VInt (m + 1)"
      using new by (simp_all add: ct flag_cells)
    have inc1: "\<forall>i. increasing (discriminators ''version'' ?t1 i)"
      using t(3) discriminators_cleared [OF ct len] by simp
    have gt: "\<forall>r \<in> set (rows ?t1). cell (columns ?t1) ''id'' r = VStr id_value \<longrightarrow>
        desc_before (cell (columns ?t1) ''version'' new) (cell (columns ?t1) ''version'' r)"
    proof (intro ballI impI)
      fix r
      assume r: "r \<in> set (rows ?t1)" "cell (columns ?t1) ''id'' r = VStr id_value"
      then obtain r0 where r0: "r0 \<in> set (rows t)" "r = clear_flag flag_columns id_value r0"
        by auto
      then have l0: "length r0 = 9" using len by blast
      have i0: "cell flag_columns ''id'' r0 = VStr id_value"
        using r(2) r0(2) l0 by (simp add: ct clear_flag_cells)
      obtain w where w: "cell flag_columns ''version'' r0 = VInt w" using ver r0(1) by blast
      with le r0(1) i0 have "w \<le> m" by fastforce
      moreover have "cell flag_columns ''version'' r = VInt w"
        using w r0(2) l0 by (simp add: clear_flag_cells)
      ultimately show "desc_before (cell (columns ?t1) ''version'' new)
                         (cell (columns ?t1) ''version'' r)"
        using nc(2) by (simp add: ct)
    qed
    have "\<forall>i. increasing (discriminators ''version'' (?t1\<lparr>rows := rows ?t1 @ [new]\<rparr>) i)"
      using inc1 nc(1) gt by (rule increasing_insert)
    then have inc: "\<forall>i. increasing (discriminators ''version''
        (t\<lparr>rows := map (clear_flag flag_columns id_value) (rows t) @ [new]\<rparr>) i)"
      by simp
    have nv: "cell flag_columns ''version'' new = VInt (m + 1)"
      using new by (simp add: flag_cells)
    have "flag_wf (t\<lparr>rows := map (clear_flag flag_columns id_value) (rows t) @ [new]\<rparr>)"
      using ct len ver new(1) nv by (auto simp: flag_wf_def clear_flag_cells)
    with inc have "mono_good ''version'' flag_wf
        (Some (t\<lparr>rows := map (clear_flag flag_columns id_value) (rows t) @ [new]\<rparr>))"
      by (simp add: mono_good_def)
    then have "mono_db tname (d(?T \<mapsto>
        t\<lparr>rows := map (clear_flag flag_columns id_value) (rows t) @ [new]\<rparr>))"
      using db by (intro mono_db_update(3))
    then show ?thesis
      using call mono_inv_outcomes(1,3) [OF inv Some] by simp
  qed
qed

lemma perform_mono:
  assumes "mono_inv tname c" and "call_ok tname call c"
  shows "mono_inv tname (snd (perform tname call c))"
proof (cases call)
  case (Counter_call id_value updates new_uid)
  with assms show ?thesis by (simp add: counter_step_inv)
next
  case (Timestamp_call id_value updates now new_uid)
  with assms show ?thesis using ts_step_inv by simp
next
  case (Flag_call id_value updates new_uid)
  with assms show ?thesis by (simp add: flag_step_mono)
qed

lemma run_calls_mono:
  "mono_inv tname c \<Longrightarrow> calls_ok tname calls c \<Longrightarrow> mono_inv tname (run_calls tname calls c)"
proof (induction calls arbitrary: c)
  case Nil
  then show ?case by simp
next
  case (Cons call calls)
  from Cons.prems have "mono_inv tname (snd (perform tname call c))"
    by (intro perform_mono) auto
  moreover from Cons.prems have "calls_ok tname calls (snd (perform tname call c))" by simp
  ultimately show ?case using Cons.IH by simp
qed

lemma increasing_distinct: "increasing vs \<Longrightarrow> distinct vs"
proof (induction vs)
  case Nil
  then show ?case by simp
next
  case (Cons v vs)
  then have "\<forall>y \<in> set vs. desc_before y v" and "increasing vs"
    by (simp_all add: increasing_def)
  with Cons.IH show ?case using desc_before_irrefl by auto
qed

text \<open>
  Claim C5, as the code has it. Start from tables as \<^verbatim>\<open>setup_database\<close> declares them in
  which the discriminators of every entity are strictly increasing in insertion order
  (as after \<^verbatim>\<open>seed_data\<close>). After any sequence of calls of the three helpers, successful
  or not, they still are, and so hold no duplicates, provided that no counter call's
  updates name \<^verbatim>\<open>id\<close> or \<^verbatim>\<open>version\<close> and every timestamp call reads a clock later than
  the \<^verbatim>\<open>created_at\<close> values its entity has at that moment. The flag helper needs no
  condition.
\<close>

theorem discriminators_strictly_increasing:
  assumes inv: "mono_inv tname c" and ok: "calls_ok tname calls c"
  shows "mono_inv tname (run_calls tname calls c)
       \<and> (\<exists>t ts tf. committed (run_calls tname calls c) tname = Some t \<and>
             committed (run_calls tname calls c) (tname @ ''_ts'') = Some ts \<and>
             committed (run_calls tname calls c) (tname @ ''_flag'') = Some tf \<and>
             (\<forall>i. increasing (discriminators ''version'' t i) \<and>
                  distinct (discriminators ''version'' t i) \<and>
                  increasing (discriminators ''created_at'' ts i) \<and>
                  distinct (discriminators ''created_at'' ts i) \<and>
                  increasing (discriminators ''version'' tf i) \<and>
                  distinct (discriminators ''version'' tf i)))"
proof -
  have m: "mono_inv tname (run_calls tname calls c)"
    using inv ok by (rule run_calls_mono)
  then have "mono_db tname (committed (run_calls tname calls c))"
    by (simp add: mono_inv_def)
  then obtain t ts tf where "committed (run_calls tname calls c) tname = Some t"
    and "committed (run_calls tname calls c) (tname @ ''_ts'') = Some ts"
    and "committed (run_calls tname calls c) (tname @ ''_flag'') = Some tf"
    and "\<forall>i. increasing (discriminators ''version'' t i)"
    and "\<forall>i. increasing (discriminators ''created_at'' ts i)"
    and "\<forall>i. increasing (discriminators ''version'' tf i)"
    by (auto simp: mono_db_def mono_good_def split: option.splits)
  with m show ?thesis by (auto intro: increasing_distinct)
qed

theorem discriminators_strictly_increasing_witness:
  "mono_inv ''jobs''
     (run_calls ''jobs''
        [Counter_call ''job1'' [(''status'', VStr ''updated'')] ''n2'',
         Timestamp_call ''job1'' [(''status'', VStr ''updated'')] 2000 ''n2'',
         Flag_call ''job1'' [(''status'', VStr ''updated'')] ''n2'',
         Timestamp_call ''job1'' [(''rate'', VInt 150)] 2001 ''n3'']
        seeded_conn)
   \<and> map_option (\<lambda>t. discriminators ''created_at'' t ''job1'')
       (committed
          (run_calls ''jobs''
             [Counter_call ''job1'' [(''status'', VStr ''updated'')] ''n2'',
              Timestamp_call ''job1'' [(''status'', VStr ''updated'')] 2000 ''n2'',
              Flag_call ''job1'' [(''status'', VStr ''updated'')] ''n2'',
              Timestamp_call ''job1'' [(''rate'', VInt 150)] 2001 ''n3'']
             seeded_conn) ''jobs_ts'')
     = Some [VTime 1001, VTime 2000, VTime 2001]"
proof -
  let ?calls = "[Counter_call ''job1'' [(''status'', VStr ''updated'')] ''n2'',
         Timestamp_call ''job1'' [(''status'', VStr ''updated'')] 2000 ''n2'',
         Flag_call ''job1'' [(''status'', VStr ''updated'')] ''n2'',
         Timestamp_call ''job1'' [(''rate'', VInt 150)] 2001 ''n3'']"
  have i: "mono_inv ''jobs'' seeded_conn"
    by (simp add: mono_inv_def mono_db_def mono_good_def seeded_conn_def seeded_db_def
        seeded_jobs_def seeded_jobs_ts_def seeded_jobs_flag_def jobs_columns_def ts_columns_def
        flag_columns_def counter_wf_def ts_wf_def flag_wf_def cell_def discriminators_def
        increasing_def)
  have k: "calls_ok ''jobs'' ?calls seeded_conn"
    by (simp add: SCDHelper_create_new_version_def TimestampVersioningHelper_create_new_version_def
        FlagVersioningHelper_create_new_version_def then_do_def execute_query_def the_view_def
        seeded_conn_def seeded_db_def seeded_jobs_def seeded_jobs_ts_def seeded_jobs_flag_def
        jobs_columns_def ts_columns_def flag_columns_def select_latest_def cell_def
        select_column_names_def python_def prepare_new_data_def ts_values_def and_then_def
        py_index_def py_getitem_def py_setitem_def dict_get_def execute_update_def insert_into_def
        violates_def commit_def returns_def update_clear_current_def clear_flag_def set_cell_def
        select_max_version_def select_version_def flag_values_def py_subscript_def Let_def)
  have r: "map_option (\<lambda>t. discriminators ''created_at'' t ''job1'')
       (committed (run_calls ''jobs'' ?calls seeded_conn) ''jobs_ts'')
     = Some [VTime 1001, VTime 2000, VTime 2001]"
    by (simp add: SCDHelper_create_new_version_def TimestampVersioningHelper_create_new_version_def
        FlagVersioningHelper_create_new_version_def then_do_def execute_query_def the_view_def
        seeded_conn_def seeded_db_def seeded_jobs_def seeded_jobs_ts_def seeded_jobs_flag_def
        jobs_columns_def ts_columns_def flag_columns_def select_latest_def cell_def
        select_column_names_def python_def prepare_new_data_def ts_values_def and_then_def
        py_index_def py_getitem_def py_setitem_def dict_get_def execute_update_def insert_into_def
        violates_def commit_def returns_def update_clear_current_def clear_flag_def set_cell_def
        select_max_version_def select_version_def flag_values_def py_subscript_def Let_def
        discriminators_def)
  have a: "mono_inv ''jobs'' (run_calls ''jobs'' ?calls seeded_conn)"
    using discriminators_strictly_increasing [OF i k] by (rule conjunct1)
  show ?thesis by (rule conjI [OF a r])
qed

text \<open>
  Without the two conditions the claim fails, on calls that succeed: a timestamp call
  whose \<^verbatim>\<open>datetime.now()\<close> lies before the entity's latest \<^verbatim>\<open>created_at\<close> (the local
  wall clock was set back) appends a smaller discriminator, and a counter call whose
  updates set \<^verbatim>\<open>version\<close> to 0 appends version 0 after version 1.
\<close>

theorem discriminators_counterexample:
  "fst (TimestampVersioningHelper_create_new_version ''jobs'' ''job1''
          [(''status'', VStr ''updated'')] 900 ''n2'' seeded_conn) = Inr None
   \<and> map_option (\<lambda>t. discriminators ''created_at'' t ''job1'')
       (committed (snd (TimestampVersioningHelper_create_new_version ''jobs'' ''job1''
          [(''status'', VStr ''updated'')] 900 ''n2'' seeded_conn)) ''jobs_ts'')
     = Some [VTime 1001, VTime 900]
   \<and> \<not> increasing [VTime 1001, VTime 900]
   \<and> fst (SCDHelper_create_new_version ''jobs'' ''job1'' [(''version'', VInt 0)] ''n2''
          seeded_conn) = Inr None
   \<and> map_option (\<lambda>t. discriminators ''version'' t ''job1'')
       (committed (snd (SCDHelper_create_new_version ''jobs'' ''job1'' [(''version'', VInt 0)] ''n2''
          seeded_conn)) ''jobs'')
     = Some [VInt 1, VInt 0]
   \<and> \<not> increasing [VInt 1, VInt 0]"
  by (simp add: TimestampVersioningHelper_create_new_version_def then_do_def execute_query_def
      the_view_def seeded_conn_def seeded_db_def seeded_jobs_ts_def ts_columns_def
      select_latest_def cell_def python_def ts_values_def and_then_def py_getitem_def dict_get_def
      execute_update_def insert_into_def violates_def commit_def returns_def discriminators_def
      increasing_def SCDHelper_create_new_version_def seeded_jobs_def jobs_columns_def
      select_column_names_def prepare_new_data_def py_index_def py_setitem_def)

section \<open>A conflict is surfaced at once\<close>

lemma interleaved_nothing:
  "interleaved (\<lambda>c. c) tname id_value updates new_uid c
   = SCDHelper_create_new_version tname id_value updates new_uid c"
  by (simp add: interleaved_def scd_read_derive_def scd_write_def
      SCDHelper_create_new_version_def then_do_def returns_def raise_def
      split: prod.splits sum.splits)

lemma scd_read_derive_result:
  assumes view: "the_view c = Some d" and tab: "d tname = Some t"
    and cols: "distinct (columns t)" "''id'' \<in> set (columns t)" "''version'' \<in> set (columns t)"
      "''uid'' \<in> set (columns t)"
    and latest: "latest \<in> set (rows t)" "length latest = length (columns t)"
      "cell (columns t) ''id'' latest = VStr id_value" "cell (columns t) ''version'' latest = VInt v"
    and others: "\<forall>r \<in> set (rows t). cell (columns t) ''id'' r = VStr id_value \<longrightarrow> r \<noteq> latest \<longrightarrow>
       (\<exists>w. cell (columns t) ''version'' r = VInt w \<and> w < v)"
  shows "scd_read_derive tname id_value updates new_uid c =
     (Inr (columns t, derived_row (columns t) latest updates new_uid v), c\<lparr>txn := Active d\<rparr>)"
proof -
  let ?rs = "filter (\<lambda>r. cell (columns t) ''id'' r = VStr id_value) (rows t)"
  have "latest \<in> set ?rs" using latest by simp
  moreover have "\<forall>r \<in> set ?rs. r \<noteq> latest \<longrightarrow>
      desc_before (cell (columns t) ''version'' latest) (cell (columns t) ''version'' r)"
    using others latest(4) by auto
  ultimately have "order_desc_first (cell (columns t) ''version'') ?rs = Some latest"
    by (rule order_desc_first_greatest)
  then have q: "select_latest tname ''version'' id_value d = Inr (Some latest)"
    using tab cols by (simp add: select_latest_def)
  have ne: "latest \<noteq> []" using latest(2) cols(2) by auto
  have p: "prepare_new_data latest (columns t) updates new_uid
             = Inr (derived_row (columns t) latest updates new_uid v)"
    using cols latest by (intro prepare_new_data_result) auto
  show ?thesis
    using view q ne p tab
    by (simp add: scd_read_derive_def then_do_def execute_query_def the_view_def
        select_column_names_def python_def returns_def)
qed

lemma same_key_violates:
  assumes "k \<in> set (keys t)" and "r' \<in> set (rows t)"
    and "\<forall>c \<in> set k. cell (columns t) c r' = cell (columns t) c r"
  shows "violates t r"
  using assms by (auto simp: violates_def)

text \<open>
  Claim C7, as the code has it. \<^verbatim>\<open>SCDHelper.create_new_version\<close> is one read-derive
  phase followed by one write phase, with no loop around them. Let the entity have a
  current row, the table have the key \<^verbatim>\<open>(id, version)\<close>, and another connection commit
  its own next version of the same entity between our read and our write (neither update
  names \<^verbatim>\<open>id\<close> or \<^verbatim>\<open>version\<close>). Then our INSERT violates the key and the call ends
  with the driver's IntegrityError: the transaction is aborted, the store holds the other
  writer's row only, and nothing is tried again.
\<close>

theorem conflict_is_surfaced_without_retry:
  assumes idle: "txn c = Idle" and tab: "committed c tname = Some t"
    and cols: "distinct (columns t)" "''id'' \<in> set (columns t)" "''version'' \<in> set (columns t)"
      "''uid'' \<in> set (columns t)"
    and latest: "latest \<in> set (rows t)" "length latest = length (columns t)"
      "cell (columns t) ''id'' latest = VStr id_value" "cell (columns t) ''version'' latest = VInt v"
    and others: "\<forall>r \<in> set (rows t). cell (columns t) ''id'' r = VStr id_value \<longrightarrow> r \<noteq> latest \<longrightarrow>
       (\<exists>w. cell (columns t) ''version'' r = VInt w \<and> w < v)"
    and key: "[''id'', ''version''] \<in> set (keys t)"
    and ours: "''id'' \<notin> fst ` set updates" "''version'' \<notin> fst ` set updates"
    and theirs: "''id'' \<notin> fst ` set other_updates" "''version'' \<notin> fst ` set other_updates"
      "\<not> violates t (derived_row (columns t) latest other_updates other_uid v)"
  shows "SCDHelper_create_new_version tname id_value updates new_uid c
           = interleaved (\<lambda>c. c) tname id_value updates new_uid c
       \<and> interleaved (other_writer tname id_value other_updates other_uid) tname id_value updates new_uid c
           = (Inl IntegrityError,
              c\<lparr>committed := (committed c)(tname \<mapsto>
                   t\<lparr>rows := rows t @ [derived_row (columns t) latest other_updates other_uid v]\<rparr>),
                txn := Failed\<rparr>)"
proof -
  let ?d = "committed c"
  let ?row1 = "derived_row (columns t) latest updates new_uid v"
  let ?row2 = "derived_row (columns t) latest other_updates other_uid v"
  let ?t2 = "t\<lparr>rows := rows t @ [?row2]\<rparr>"
  let ?d2 = "?d(tname \<mapsto> ?t2)"
  let ?c1 = "c\<lparr>txn := Active ?d\<rparr>"
  have view: "the_view c = Some ?d" using idle by (simp add: the_view_def)
  have rd: "scd_read_derive tname id_value updates new_uid c = (Inr (columns t, ?row1), ?c1)"
    using view tab cols latest others by (rule scd_read_derive_result)
  have "the_view (?c1\<lparr>txn := Idle\<rparr>) = Some ?d" by (simp add: the_view_def)
  from scd_create_result [OF this tab cols latest others, of other_updates other_uid] theirs(3)
  have "committed (snd (SCDHelper_create_new_version tname id_value other_updates other_uid
          (?c1\<lparr>txn := Idle\<rparr>))) = ?d2"
    by simp
  then have ow: "other_writer tname id_value other_updates other_uid ?c1
                 = c\<lparr>committed := ?d2, txn := Active ?d2\<rparr>"
    by (simp add: other_writer_def Let_def)
  have c1: "cell (columns t) ''id'' ?row1 = VStr id_value"
      "cell (columns t) ''version'' ?row1 = VInt (v + 1)"
    using derived_row_cells [OF cols(2,3) ours] latest(3) by simp_all
  have c2: "cell (columns t) ''id'' ?row2 = VStr id_value"
      "cell (columns t) ''version'' ?row2 = VInt (v + 1)"
    using derived_row_cells [OF cols(2,3) theirs(1,2)] latest(3) by simp_all
  have "violates ?t2 ?row1"
    by (rule same_key_violates [where k = "[''id'', ''version'']" and r' = ?row2])
      (use key c1 c2 in simp_all)
  moreover have "insert_into tname (columns ?t2) ?row1 ?d2 =
          (if violates ?t2 ?row1 then Inl IntegrityError
           else Inr (?d2(tname \<mapsto> ?t2\<lparr>rows := rows ?t2 @ [?row1]\<rparr>)))"
    by (rule insert_into_all_columns) (simp_all add: cols derived_row_length)
  ultimately have ins: "insert_into tname (columns t) ?row1 ?d2 = Inl IntegrityError"
    by simp
  have "interleaved (other_writer tname id_value other_updates other_uid) tname id_value updates new_uid c
           = (Inl IntegrityError, c\<lparr>committed := ?d2, txn := Failed\<rparr>)"
    by (simp add: interleaved_def rd ow scd_write_def then_do_def execute_update_def the_view_def
        ins)
  then show ?thesis by (simp add: interleaved_nothing)
qed

theorem conflict_is_surfaced_without_retry_witness:
  "SCDHelper_create_new_version ''jobs'' ''job1'' [(''status'', VStr ''updated'')] ''n2'' seeded_conn
     = interleaved (\<lambda>c. c) ''jobs'' ''job1'' [(''status'', VStr ''updated'')] ''n2'' seeded_conn
   \<and> interleaved (other_writer ''jobs'' ''job1'' [(''rate'', VInt 150)] ''m2'')
       ''jobs'' ''job1'' [(''status'', VStr ''updated'')] ''n2'' seeded_conn
     = (Inl IntegrityError,
        seeded_conn\<lparr>committed := seeded_db(''jobs'' \<mapsto> seeded_jobs\<lparr>rows := rows seeded_jobs @
            [[VStr ''job1'', VInt 2, VStr ''m2'', VStr ''active'', VInt 150, VStr ''Engineer'',
              VStr ''comp1'', VStr ''cont1'']]\<rparr>),
          txn := Failed\<rparr>)"
  using conflict_is_surfaced_without_retry [where c = seeded_conn and tname = "''jobs''"
      and t = seeded_jobs and id_value = "''job1''" and v = 1
      and latest = "[VStr ''job1'', VInt 1, VStr ''a1'', VStr ''active'', VInt 100, VStr ''Engineer'',
              VStr ''comp1'', VStr ''cont1'']"
      and updates = "[(''status'', VStr ''updated'')]" and new_uid = "''n2''"
      and other_updates = "[(''rate'', VInt 150)]" and other_uid = "''m2''"]
  by (simp add: seeded_conn_def seeded_db_def seeded_jobs_def jobs_columns_def cell_def
      derived_row_def violates_def)

text \<open>
  The claim's engine retries before it surfaces the conflict; the code does not. With
  the other writer's commit between read and write, the code's one attempt ends in an
  error of class IntegrityError, while the retrying engine of the specification, with a
  single retry, succeeds and inserts version 3.
\<close>

theorem conflict_counterexample:
  "map_sum error_class id
     (fst (interleaved (other_writer ''jobs'' ''job1'' [(''rate'', VInt 150)] ''m2'')
        ''jobs'' ''job1'' [(''status'', VStr ''updated'')] ''n2'' seeded_conn))
     = Inl ''IntegrityError''
   \<and> fst (retrying (Suc 0) (other_writer ''jobs'' ''job1'' [(''rate'', VInt 150)] ''m2'')
        ''jobs'' ''job1'' [(''status'', VStr ''updated'')] ''n2'' seeded_conn)
     = Inr None
   \<and> map_option rows (committed (snd
        (retrying (Suc 0) (other_writer ''jobs'' ''job1'' [(''rate'', VInt 150)] ''m2'')
           ''jobs'' ''job1'' [(''status'', VStr ''updated'')] ''n2'' seeded_conn)) ''jobs'')
     = Some (rows seeded_jobs @
         [[VStr ''job1'', VInt 2, VStr ''m2'', VStr ''active'', VInt 150, VStr ''Engineer'',
           VStr ''comp1'', VStr ''cont1''],
          [VStr ''job1'', VInt 3, VStr ''n2'', VStr ''updated'', VInt 150, VStr ''Engineer'',
           VStr ''comp1'', VStr ''cont1'']])"
  by (simp add: interleaved_def other_writer_def rollback_def scd_read_derive_def scd_write_def
      SCDHelper_create_new_version_def then_do_def execute_query_def the_view_def raise_def
      seeded_conn_def seeded_db_def seeded_jobs_def jobs_columns_def select_latest_def cell_def
      select_column_names_def python_def prepare_new_data_def and_then_def py_index_def
      py_getitem_def py_setitem_def execute_update_def insert_into_def violates_def commit_def
      returns_def Let_def)

section \<open>The three bulk queries agree on tables with the same history\<close>










end
